theory Spec2Isabelle
  imports Complex_Main
begin

section \<open>Data model of the node writer\<close>

text \<open>
  The embedding follows \<^verbatim>\<open>src/exporter/node_writer.py\<close>. Python floats are
  modelled as \<^typ>\<open>real\<close> (no rounding), counts and indices as \<^typ>\<open>nat\<close>.
  A vector is the tuple of its components: \<^verbatim>\<open>co[0]\<close>, \<^verbatim>\<open>co[1]\<close>,
  \<^verbatim>\<open>co[2]\<close> are \<open>c0\<close>, \<open>c1\<close>, \<open>c2\<close>.
\<close>

type_synonym vec3 = "real \<times> real \<times> real"
type_synonym vec2 = "real \<times> real"

definition c0 :: "vec3 \<Rightarrow> real" where "c0 v = fst v"
definition c1 :: "vec3 \<Rightarrow> real" where "c1 v = fst (snd v)"
definition c2 :: "vec3 \<Rightarrow> real" where "c2 v = snd (snd v)"

text \<open>A 4x4 matrix is its list of rows; \<^verbatim>\<open>Matrix()\<close> is the identity.\<close>

type_synonym matrix = "real list list"

definition Matrix_identity :: matrix where
  "Matrix_identity = [[1, 0, 0, 0], [0, 1, 0, 0], [0, 0, 1, 0], [0, 0, 0, 1]]"

text \<open>Every \<^verbatim>\<open>raise\<close> of the source, and the built-in errors its subscripts can raise.\<close>

datatype error =
    Exception string
  | IndexError
  | KeyError
  | ZeroDivisionError
  | ValueError

text \<open>\<^verbatim>\<open>class UvVertex\<close>: equality and hash read \<open>co\<close>, \<open>normal\<close> and \<open>uv\<close> only.\<close>

record UvVertex =
  co :: vec3
  normal :: vec3
  uv :: vec2
  tangent :: vec3

definition UvVertex_eq :: "UvVertex \<Rightarrow> UvVertex \<Rightarrow> bool" where
  "UvVertex_eq self other \<longleftrightarrow>
     co self = co other \<and> normal self = normal other \<and> uv self = uv other"

text \<open>\<^verbatim>\<open>__hash__\<close> hashes a tuple of eight numbers; the model returns that tuple.\<close>

definition UvVertex_hash :: "UvVertex \<Rightarrow> real list" where
  "UvVertex_hash self =
     [c0 (co self), c1 (co self), c2 (co self),
      c0 (normal self), c1 (normal self), c2 (normal self),
      fst (uv self), snd (uv self)]"

text \<open>\<^verbatim>\<open>class Mesh\<close>; \<open>material_id\<close> may be Python's \<^verbatim>\<open>None\<close>.\<close>

record Mesh =
  material_id :: "nat option"
  vertices :: "UvVertex list"
  indices :: "nat list"

text \<open>\<^verbatim>\<open>class NodeProperties\<close> with the defaults of its constructor.\<close>

record NodeProperties =
  lodIn :: real
  lodOut :: real
  layer :: nat
  castShadows :: bool
  visible :: bool
  transparent :: bool
  renderable :: bool

definition NodeProperties_default :: NodeProperties where
  "NodeProperties_default =
     \<lparr>lodIn = 0, lodOut = 1000, layer = 0, castShadows = True, visible = True,
      transparent = False, renderable = True\<rparr>"

text \<open>One \<^verbatim>\<open>setattr(node_properties, name, value)\<close> for a name of \<^verbatim>\<open>NODE_SETTINGS\<close>.\<close>

datatype setting =
    Set_lodIn real
  | Set_lodOut real
  | Set_layer nat
  | Set_castShadows bool
  | Set_visible bool
  | Set_transparent bool
  | Set_renderable bool

fun setattr :: "NodeProperties \<Rightarrow> setting \<Rightarrow> NodeProperties" where
  "setattr p (Set_lodIn v) = p\<lparr>lodIn := v\<rparr>"
| "setattr p (Set_lodOut v) = p\<lparr>lodOut := v\<rparr>"
| "setattr p (Set_layer v) = p\<lparr>layer := v\<rparr>"
| "setattr p (Set_castShadows v) = p\<lparr>castShadows := v\<rparr>"
| "setattr p (Set_visible v) = p\<lparr>visible := v\<rparr>"
| "setattr p (Set_transparent v) = p\<lparr>transparent := v\<rparr>"
| "setattr p (Set_renderable v) = p\<lparr>renderable := v\<rparr>"

text \<open>
  \<^verbatim>\<open>NodeSettings.apply_settings_to_node\<close>: every stored setting is assigned, in
  order; the compiled pattern is not consulted.
\<close>

definition apply_settings_to_node :: "setting list \<Rightarrow> NodeProperties \<Rightarrow> NodeProperties" where
  "apply_settings_to_node settings node_properties = foldl setattr node_properties settings"

section \<open>The output stream\<close>

text \<open>
  The primitive writers of \<^verbatim>\<open>KN5Writer\<close> append to the file in call order. The
  stream is the list of the values written; each value stands for its bytes.
\<close>

datatype token =
    UInt nat
  | UShort nat
  | Bool bool
  | Float real
  | Str string
  | Vec2 vec2
  | Vec3 vec3
  | Mat matrix

record writer =
  out :: "token list"
  warnings :: "string list"

definition emit :: "token \<Rightarrow> writer \<Rightarrow> writer" where
  "emit t w = w\<lparr>out := out w @ [t]\<rparr>"

definition write_uint :: "nat \<Rightarrow> writer \<Rightarrow> writer" where "write_uint n = emit (UInt n)"
definition write_ushort :: "nat \<Rightarrow> writer \<Rightarrow> writer" where "write_ushort n = emit (UShort n)"
definition write_bool :: "bool \<Rightarrow> writer \<Rightarrow> writer" where "write_bool b = emit (Bool b)"
definition write_float :: "real \<Rightarrow> writer \<Rightarrow> writer" where "write_float x = emit (Float x)"
definition write_string :: "string \<Rightarrow> writer \<Rightarrow> writer" where "write_string x = emit (Str x)"
definition write_vector2 :: "vec2 \<Rightarrow> writer \<Rightarrow> writer" where "write_vector2 v = emit (Vec2 v)"
definition write_vector3 :: "vec3 \<Rightarrow> writer \<Rightarrow> writer" where "write_vector3 v = emit (Vec3 v)"
definition write_matrix :: "matrix \<Rightarrow> writer \<Rightarrow> writer" where "write_matrix m = emit (Mat m)"

definition warn :: "string \<Rightarrow> writer \<Rightarrow> writer" where
  "warn msg w = w\<lparr>warnings := warnings w @ [msg]\<rparr>"

text \<open>\<^verbatim>\<open>NODE_CLASS\<close> and \<^verbatim>\<open>_write_node_class\<close>.\<close>

datatype node_class = Node | Mesh_class | SkinnedMesh

fun NODE_CLASS :: "node_class \<Rightarrow> nat" where
  "NODE_CLASS Node = 1"
| "NODE_CLASS Mesh_class = 2"
| "NODE_CLASS SkinnedMesh = 3"

definition write_node_class :: "node_class \<Rightarrow> writer \<Rightarrow> writer" where
  "write_node_class node_class = write_uint (NODE_CLASS node_class)"

section \<open>Bounding volume\<close>

text \<open>The six accumulators of \<^verbatim>\<open>_write_bounding_sphere\<close> and one pass of its loop.\<close>

record bounds =
  max_x :: real
  max_y :: real
  max_z :: real
  min_x :: real
  min_y :: real
  min_z :: real

definition bounds_init :: bounds where
  "bounds_init =
     \<lparr>max_x = - 999999999, max_y = - 999999999, max_z = - 999999999,
      min_x = 999999999, min_y = 999999999, min_z = 999999999\<rparr>"

definition bounds_step :: "bounds \<Rightarrow> UvVertex \<Rightarrow> bounds" where
  "bounds_step b vertex =
     (let b1 = (if c0 (co vertex) > max_x b then b\<lparr>max_x := c0 (co vertex)\<rparr> else b);
          b2 = (if c0 (co vertex) < min_x b1 then b1\<lparr>min_x := c0 (co vertex)\<rparr> else b1);
          b3 = (if c1 (co vertex) > max_y b2 then b2\<lparr>max_y := c1 (co vertex)\<rparr> else b2);
          b4 = (if c1 (co vertex) < min_y b3 then b3\<lparr>min_y := c1 (co vertex)\<rparr> else b3);
          b5 = (if c2 (co vertex) > max_z b4 then b4\<lparr>max_z := c2 (co vertex)\<rparr> else b4);
          b6 = (if c2 (co vertex) < min_z b5 then b5\<lparr>min_z := c2 (co vertex)\<rparr> else b5)
      in b6)"

definition bounds_of :: "UvVertex list \<Rightarrow> bounds" where
  "bounds_of vs = foldl bounds_step bounds_init vs"

definition sphere_center :: "bounds \<Rightarrow> vec3" where
  "sphere_center b =
     (min_x b + (max_x b - min_x b) / 2,
      min_y b + (max_y b - min_y b) / 2,
      min_z b + (max_z b - min_z b) / 2)"

definition sphere_radius :: "bounds \<Rightarrow> real" where
  "sphere_radius b =
     max (max ((max_x b - min_x b) / 2) ((max_y b - min_y b) / 2)) ((max_z b - min_z b) / 2) * 2"

definition write_bounding_sphere :: "UvVertex list \<Rightarrow> writer \<Rightarrow> writer" where
  "write_bounding_sphere vs w =
     (let b = bounds_of vs
      in write_float (sphere_radius b) (write_vector3 (sphere_center b) w))"

section \<open>The scene handed to the writer\<close>

text \<open>
  The evaluated, triangulated mesh of an object (\<^verbatim>\<open>mesh_copy\<close>): vertex coordinates,
  loops, loop triangles, the active UV layer (one \<^verbatim>\<open>uv\<close> per loop) and the material
  slots. A slot is \<^verbatim>\<open>None\<close> or a material; \<open>texture_slot\<close> is what
  \<^verbatim>\<open>get_active_material_texture_slot\<close> returns for it.
\<close>

record MeshLoop =
  vertex_index :: nat
  loop_normal :: vec3
  loop_tangent :: vec3

record LoopTriangle =
  loops :: "nat list"
  material_index :: nat

record texture_mapping =
  scale :: vec3
  translation :: vec3

record Material =
  mat_name :: string
  texture_slot :: "texture_mapping option"

record EvalMesh =
  mesh_vertices :: "vec3 list"
  mesh_loops :: "MeshLoop list"
  mesh_triangles :: "LoopTriangle list"
  uv_layer :: "vec2 list option"
  materials :: "Material option list"

text \<open>
  A scene object. \<open>parent\<close> is \<open>None\<close> for an object without parent and otherwise
  holds the parent's \<^verbatim>\<open>matrix_world\<close>, the only attribute of the parent the writer
  reads. \<open>visible_get\<close> is the result of \<^verbatim>\<open>obj.visible_get(view_layer=...)\<close>,
  \<open>ac_properties\<close> lists the attributes of \<^verbatim>\<open>NODE_SETTINGS\<close> found on
  \<^verbatim>\<open>obj.ac_properties\<close> (in that order), and \<open>to_mesh\<close> is the evaluated mesh.
\<close>

datatype obj = Obj
  (name: string)
  (type: string)
  (visible_get: bool)
  (parent: "matrix option")
  (children: "obj list")
  (matrix_local: matrix)
  (matrix_world: matrix)
  (dimensions: vec3)
  (ac_properties: "setting list")
  (to_mesh: EvalMesh)

text \<open>
  What the writer takes from outside this file: the helpers of \<^verbatim>\<open>exporter_utils\<close>,
  the operations of \<^verbatim>\<open>mathutils\<close> (\<open>matmul\<close> is \<^verbatim>\<open>matrix @ vector\<close>,
  \<open>inverted\<close> is \<open>None\<close> where \<^verbatim>\<open>Matrix.inverted()\<close> raises ValueError),
  the iteration order of a Python \<^verbatim>\<open>set\<close> built from a list, whether a name
  matches one of \<^verbatim>\<open>ASSETTO_CORSA_OBJECTS\<close>, \<^verbatim>\<open>os.linesep\<close>, the dict
  \<^verbatim>\<open>material_writer.material_positions\<close> (\<open>None\<close> for a name that is not a key,
  \<open>Some v\<close> for a key with the value \<open>v\<close>, which may be Python's \<^verbatim>\<open>None\<close>) and
  the node settings read from the settings file.
\<close>

record env =
  convert_matrix :: "matrix \<Rightarrow> matrix"
  convert_vector3 :: "vec3 \<Rightarrow> vec3"
  matmul :: "matrix \<Rightarrow> vec3 \<Rightarrow> vec3"
  inverted :: "matrix \<Rightarrow> matrix option"
  set_iter :: "nat list \<Rightarrow> nat list"
  is_ac_object :: "string \<Rightarrow> bool"
  linesep :: string
  material_positions :: "string \<Rightarrow> nat option option"
  node_settings :: "setting list list"

section \<open>Strings\<close>

definition startswith :: "string \<Rightarrow> string \<Rightarrow> bool" where
  "startswith s prefix \<longleftrightarrow> take (length prefix) s = prefix"

text \<open>Decimal digits of a number, as an f-string prints it.\<close>

fun str_nat :: "nat \<Rightarrow> string" where
  "str_nat n =
     (if n < 10 then [char_of (48 + n)]
      else str_nat (n div 10) @ [char_of (48 + n mod 10)])"

definition quoted :: "string \<Rightarrow> string" where
  "quoted s = [CHR 0x27] @ s @ [CHR 0x27]"

section \<open>Material grouping\<close>

text \<open>\<^verbatim>\<open>_calculate_uvs\<close>; dividing a float by zero raises.\<close>

definition calculate_uvs :: "obj \<Rightarrow> EvalMesh \<Rightarrow> nat \<Rightarrow> vec3 \<Rightarrow> error + vec2" where
  "calculate_uvs obj mesh material_idx position =
     (let size = dimensions obj in
      if c0 size = 0 then Inl ZeroDivisionError
      else if c1 size = 0 then Inl ZeroDivisionError
      else
        (let x = c0 position / c0 size;
             y = c1 position / c1 size
         in if material_idx \<ge> length (materials mesh) then Inl IndexError
            else
              (case materials mesh ! material_idx of
                 None \<Rightarrow> Inr (x, y)
               | Some mat \<Rightarrow>
                   (case texture_slot mat of
                      None \<Rightarrow> Inr (x, y)
                    | Some texture_node \<Rightarrow>
                        Inr (x * c0 (scale texture_node) + c0 (translation texture_node),
                             y * c1 (scale texture_node) + c1 (translation texture_node))))))"

text \<open>Lines 325 to 336: the vertex built for one loop of a triangle.\<close>

definition loop_vertex :: "env \<Rightarrow> obj \<Rightarrow> EvalMesh \<Rightarrow> nat \<Rightarrow> nat \<Rightarrow> error + UvVertex" where
  "loop_vertex e obj mesh material_idx loop_index =
     (if loop_index \<ge> length (mesh_loops mesh) then Inl IndexError
      else
        (let loop = mesh_loops mesh ! loop_index in
         if vertex_index loop \<ge> length (mesh_vertices mesh) then Inl IndexError
         else
           (let local_position = matmul e (matrix_world obj) (mesh_vertices mesh ! vertex_index loop);
                converted_position = convert_vector3 e local_position;
                converted_normal = convert_vector3 e (loop_normal loop)
            in case (case uv_layer mesh of
                       Some layer_data \<Rightarrow>
                         (if loop_index \<ge> length layer_data then Inl IndexError
                          else Inr (fst (layer_data ! loop_index), - snd (layer_data ! loop_index)))
                     | None \<Rightarrow> calculate_uvs obj mesh material_idx local_position) of
                 Inl err \<Rightarrow> Inl err
               | Inr uv_value \<Rightarrow>
                   Inr \<lparr>co = converted_position, normal = converted_normal, uv = uv_value,
                        tangent = loop_tangent loop\<rparr>)))"

text \<open>
  The dict \<^verbatim>\<open>vertices\<close> is the list of its items in insertion order; its keys are
  compared with \<open>UvVertex_eq\<close>. \<open>insert_vertex\<close> is lines 337 to 340: a vertex
  that is not yet a key gets the index \<^verbatim>\<open>len(vertices)\<close>, and the index stored
  for the key is returned.
\<close>

type_synonym vertex_dict = "(UvVertex \<times> nat) list"

definition lookup_vertex :: "UvVertex \<Rightarrow> vertex_dict \<Rightarrow> (UvVertex \<times> nat) option" where
  "lookup_vertex vertex vs = find (\<lambda>item. UvVertex_eq vertex (fst item)) vs"

definition insert_vertex :: "UvVertex \<Rightarrow> vertex_dict \<Rightarrow> vertex_dict \<times> nat" where
  "insert_vertex vertex vs =
     (case lookup_vertex vertex vs of
        None \<Rightarrow> (vs @ [(vertex, length vs)], length vs)
      | Some item \<Rightarrow> (vs, snd item))"

text \<open>Line 345: the keys of the dict, sorted by their index.\<close>

definition vertex_buffer :: "vertex_dict \<Rightarrow> UvVertex list" where
  "vertex_buffer vs = map fst (sort_key snd vs)"

text \<open>The loop over \<^verbatim>\<open>triangle.loops\<close>.\<close>

fun face_loop ::
  "env \<Rightarrow> obj \<Rightarrow> EvalMesh \<Rightarrow> nat \<Rightarrow> nat list \<Rightarrow> vertex_dict \<Rightarrow> nat list
     \<Rightarrow> error + (vertex_dict \<times> nat list)" where
  "face_loop e obj mesh material_idx [] vs face_indices = Inr (vs, face_indices)"
| "face_loop e obj mesh material_idx (loop_index # rest) vs face_indices =
     (case loop_vertex e obj mesh material_idx loop_index of
        Inl err \<Rightarrow> Inl err
      | Inr vertex \<Rightarrow>
          (case insert_vertex vertex vs of
             (vs', i) \<Rightarrow> face_loop e obj mesh material_idx rest vs' (face_indices @ [i])))"

text \<open>Lines 342 to 344: the winding; a face with fewer than three loops has no index 2.\<close>

definition extend_face :: "nat list \<Rightarrow> nat list \<Rightarrow> error + nat list" where
  "extend_face face_indices idx =
     (if length face_indices < 3 then Inl IndexError
      else
        (let idx1 = idx @ [face_indices ! 1, face_indices ! 2, face_indices ! 0]
         in if length face_indices = 4
            then Inr (idx1 @ [face_indices ! 2, face_indices ! 3, face_indices ! 0])
            else Inr idx1))"

text \<open>The body of the loop over \<^verbatim>\<open>mesh_triangles\<close>, for a triangle of the material.\<close>

definition add_triangle ::
  "env \<Rightarrow> obj \<Rightarrow> EvalMesh \<Rightarrow> nat \<Rightarrow> LoopTriangle \<Rightarrow> vertex_dict \<Rightarrow> nat list
     \<Rightarrow> error + (vertex_dict \<times> nat list)" where
  "add_triangle e obj mesh material_idx triangle vs idx =
     (case face_loop e obj mesh material_idx (loops triangle) vs [] of
        Inl err \<Rightarrow> Inl err
      | Inr (vs', face_indices) \<Rightarrow>
          (case extend_face face_indices idx of
             Inl err \<Rightarrow> Inl err
           | Inr idx' \<Rightarrow> Inr (vs', idx')))"

fun triangles_loop ::
  "env \<Rightarrow> obj \<Rightarrow> EvalMesh \<Rightarrow> nat \<Rightarrow> LoopTriangle list \<Rightarrow> vertex_dict \<Rightarrow> nat list
     \<Rightarrow> error + (vertex_dict \<times> nat list)" where
  "triangles_loop e obj mesh material_idx [] vs idx = Inr (vs, idx)"
| "triangles_loop e obj mesh material_idx (triangle # rest) vs idx =
     (if material_idx \<noteq> material_index triangle
      then triangles_loop e obj mesh material_idx rest vs idx
      else
        (case add_triangle e obj mesh material_idx triangle vs idx of
           Inl err \<Rightarrow> Inl err
         | Inr (vs', idx') \<Rightarrow> triangles_loop e obj mesh material_idx rest vs' idx'))"

text \<open>The loop over \<^verbatim>\<open>used_materials\<close>.\<close>

fun materials_loop ::
  "env \<Rightarrow> obj \<Rightarrow> EvalMesh \<Rightarrow> nat list \<Rightarrow> Mesh list \<Rightarrow> error + Mesh list" where
  "materials_loop e obj mesh [] meshes = Inr meshes"
| "materials_loop e obj mesh (material_idx # rest) meshes =
     (if material_idx \<ge> length (materials mesh) then Inl IndexError
      else
        (case materials mesh ! material_idx of
           None \<Rightarrow>
             Inl (Exception (''Material slot '' @ str_nat material_idx @ '' for object ''
                    @ quoted (name obj) @ '' has no material assigned''))
         | Some mat \<Rightarrow>
             (if startswith (mat_name mat) ''__''
              then Inl (Exception (''Material '' @ quoted (mat_name mat)
                     @ '' is ignored but is used by object '' @ quoted (name obj)))
              else
                (case triangles_loop e obj mesh material_idx (mesh_triangles mesh) [] [] of
                   Inl err \<Rightarrow> Inl err
                 | Inr (vs, idx) \<Rightarrow>
                     (case material_positions e (mat_name mat) of
                        None \<Rightarrow> Inl KeyError
                      | Some mat_id \<Rightarrow>
                          materials_loop e obj mesh rest
                            (meshes @ [\<lparr>material_id = mat_id, vertices = vertex_buffer vs,
                                        indices = idx\<rparr>]))))))"

text \<open>\<^verbatim>\<open>_split_object_by_materials\<close>.\<close>

definition split_object_by_materials :: "env \<Rightarrow> obj \<Rightarrow> error + Mesh list" where
  "split_object_by_materials e obj =
     (let mesh_copy = to_mesh obj in
      if materials mesh_copy = []
      then Inl (Exception (''Object '' @ quoted (name obj) @ '' has no material assigned''))
      else
        (let used_materials = set_iter e (map material_index (mesh_triangles mesh_copy))
         in materials_loop e obj mesh_copy used_materials []))"

section \<open>Index-limit splitter\<close>

text \<open>
  The dict \<^verbatim>\<open>vertex_index_mapping\<close> is the list of its items in insertion order.
  \<open>remap_face\<close> is the loop over the indices of one face (lines 364 to 368): an index
  seen for the first time is given \<^verbatim>\<open>len(vertex_index_mapping)\<close>, and the index
  stored for it is appended to \<^verbatim>\<open>new_indices\<close>.
\<close>

type_synonym index_dict = "(nat \<times> nat) list"

fun remap_face :: "nat list \<Rightarrow> index_dict \<Rightarrow> nat list \<Rightarrow> index_dict \<times> nat list" where
  "remap_face [] mapping new_indices = (mapping, new_indices)"
| "remap_face (face_index # face) mapping new_indices =
     (case map_of mapping face_index of
        None \<Rightarrow>
          remap_face face (mapping @ [(face_index, length mapping)]) (new_indices @ [length mapping])
      | Some new_index \<Rightarrow> remap_face face mapping (new_indices @ [new_index]))"

text \<open>
  The \<^verbatim>\<open>for i in range(start_index, len(mesh.indices), 3)\<close> loop. \<open>i\<close> and
  \<^verbatim>\<open>start_index\<close> agree whenever the loop tests its range, so one counter carries
  both; the result is \<^verbatim>\<open>start_index\<close>, the mapping and \<^verbatim>\<open>new_indices\<close> when
  the loop is left. The slice \<^verbatim>\<open>mesh.indices[i:i+3]\<close> is \<open>take 3 (drop i idx)\<close>.
  \<open>limit\<close> is \<^verbatim>\<open>2**16\<close> in the source, so \<open>limit - 3\<close> does not truncate.
\<close>

function split_faces ::
  "nat \<Rightarrow> nat list \<Rightarrow> nat \<Rightarrow> index_dict \<Rightarrow> nat list \<Rightarrow> nat \<times> index_dict \<times> nat list" where
  "split_faces limit idx i mapping new_indices =
     (if i < length idx then
        (case remap_face (take 3 (drop i idx)) mapping new_indices of
           (mapping', new_indices') \<Rightarrow>
             if length mapping' \<ge> limit - 3 then (i + 3, mapping', new_indices')
             else split_faces limit idx (i + 3) mapping' new_indices')
      else (i, mapping, new_indices))"
  by pat_completeness auto
termination
  by (relation "measure (\<lambda>(limit, idx, i, mapping, new_indices). length idx - i)") auto

declare split_faces.simps [simp del]

lemma split_faces_advances:
  "i < length idx \<Longrightarrow> i < fst (split_faces limit idx i mapping new_indices)"
proof (induction limit idx i mapping new_indices rule: split_faces.induct)
  case (1 limit idx i mapping new_indices)
  obtain m' n' where r: "remap_face (take 3 (drop i idx)) mapping new_indices = (m', n')"
    by (cases "remap_face (take 3 (drop i idx)) mapping new_indices")
  show ?case
  proof (cases "length m' \<ge> limit - 3")
    case True
    then show ?thesis using "1.prems" r by (subst split_faces.simps) simp
  next
    case False
    show ?thesis
    proof (cases "i + 3 < length idx")
      case True
      have "i + 3 < fst (split_faces limit idx (i + 3) m' n')"
        using "1.IH" "1.prems" r False True by simp
      then show ?thesis using "1.prems" r False by (subst split_faces.simps) simp
    next
      case f: False
      have "split_faces limit idx (i + 3) m' n' = (i + 3, m', n')"
        using f by (subst split_faces.simps) simp
      then show ?thesis using "1.prems" r False by (subst split_faces.simps) simp
    qed
  qed
qed

text \<open>Line 371: \<^verbatim>\<open>mesh.vertices[v]\<close> for every key, in the order of the new indices.\<close>

fun lookup_vertices :: "UvVertex list \<Rightarrow> nat list \<Rightarrow> error + UvVertex list" where
  "lookup_vertices vs [] = Inr []"
| "lookup_vertices vs (v # rest) =
     (if v \<ge> length vs then Inl IndexError
      else
        (case lookup_vertices vs rest of
           Inl err \<Rightarrow> Inl err
         | Inr verts \<Rightarrow> Inr (vs ! v # verts)))"

text \<open>The \<^verbatim>\<open>while start_index < len(mesh.indices)\<close> loop for one oversized mesh.\<close>

function split_mesh :: "nat \<Rightarrow> Mesh \<Rightarrow> nat \<Rightarrow> Mesh list \<Rightarrow> error + Mesh list" where
  "split_mesh limit mesh start_index new_meshes =
     (if start_index < length (indices mesh) then
        (case split_faces limit (indices mesh) start_index [] [] of
           (start_index', mapping, new_indices) \<Rightarrow>
             (case lookup_vertices (vertices mesh) (map fst (sort_key snd mapping)) of
                Inl err \<Rightarrow> Inl err
              | Inr verts \<Rightarrow>
                  split_mesh limit mesh start_index'
                    (new_meshes @ [\<lparr>material_id = material_id mesh, vertices = verts,
                                    indices = new_indices\<rparr>])))
      else Inr new_meshes)"
  by pat_completeness auto
termination
  apply (relation "measure (\<lambda>(limit, mesh, start_index, new_meshes). length (indices mesh) - start_index)")
   apply simp
  apply clarsimp
  subgoal for limit mesh start_index x a b ba
    using split_faces_advances[of start_index "indices mesh" limit "[]" "[]"]
    by (metis diff_less_mono2 fst_conv)
  done

declare split_mesh.simps [simp del]

text \<open>\<^verbatim>\<open>_split_meshes_for_vertex_limit\<close>: the loop over the meshes, with \<^verbatim>\<open>limit = 2**16\<close>.\<close>

fun split_meshes_loop :: "nat \<Rightarrow> Mesh list \<Rightarrow> Mesh list \<Rightarrow> error + Mesh list" where
  "split_meshes_loop limit [] new_meshes = Inr new_meshes"
| "split_meshes_loop limit (mesh # rest) new_meshes =
     (if length (vertices mesh) > limit then
        (case split_mesh limit mesh 0 new_meshes of
           Inl err \<Rightarrow> Inl err
         | Inr new_meshes' \<Rightarrow> split_meshes_loop limit rest new_meshes')
      else split_meshes_loop limit rest (new_meshes @ [mesh]))"

definition split_meshes_for_vertex_limit :: "Mesh list \<Rightarrow> error + Mesh list" where
  "split_meshes_for_vertex_limit divided_meshes = split_meshes_loop (2 ^ 16) divided_meshes []"

section \<open>Node hierarchy serializer\<close>

text \<open>
  A writer method returns the exception it raised, if any, and the stream and warnings
  as they are at that moment: what was written before a \<^verbatim>\<open>raise\<close> stays written.
\<close>

type_synonym outcome = "error option \<times> writer"

text \<open>\<^verbatim>\<open>_write_base_node_data\<close>.\<close>

record node_data =
  nd_name :: string
  childCount :: nat
  active :: bool
  transform :: matrix

definition write_base_node_data :: "node_data \<Rightarrow> writer \<Rightarrow> writer" where
  "write_base_node_data nd w =
     write_matrix (transform nd)
       (write_bool (active nd)
         (write_uint (childCount nd)
           (write_string (nd_name nd)
             (write_node_class Node w))))"

text \<open>\<^verbatim>\<open>_any_child_is_mesh\<close>.\<close>

fun any_child_is_mesh :: "obj \<Rightarrow> bool"
  and any_is_mesh :: "obj list \<Rightarrow> bool" where
  "any_child_is_mesh (Obj nm ty vis par cs ml mw dims acp msh) = any_is_mesh cs"
| "any_is_mesh [] = False"
| "any_is_mesh (child # rest) =
     (if type child = ''MESH'' \<or> type child = ''CURVE'' \<or> any_child_is_mesh child then True
      else any_is_mesh rest)"

text \<open>The two counting loops of \<^verbatim>\<open>_write_base_node\<close> (lines 173 to 175 and 182 to 184).\<close>

definition count_root_children :: "obj list \<Rightarrow> nat" where
  "count_root_children objects =
     length (filter (\<lambda>obj. parent obj = None \<and> \<not> startswith (name obj) ''__'' \<and> visible_get obj)
               objects)"

definition count_children :: "obj list \<Rightarrow> nat" where
  "count_children cs =
     length (filter (\<lambda>child. \<not> startswith (name child) ''__'' \<and> visible_get child) cs)"

definition unknown_object_warning :: "env \<Rightarrow> string \<Rightarrow> string" where
  "unknown_object_warning e obj_name =
     ''Unknown logical object '' @ quoted obj_name
       @ '' might prevent other objects from loading.'' @ linesep e
       @ [CHR 0x09] @ ''Rename it to '' @ quoted (''__{obj.name}'')
       @ '' if you do not want to export it.''"

text \<open>
  \<^verbatim>\<open>_write_base_node\<close>: \<open>None\<close> is the call for the synthetic root, which counts
  over \<^verbatim>\<open>blend_data.objects\<close>.
\<close>

definition write_base_node :: "env \<Rightarrow> obj list \<Rightarrow> obj option \<Rightarrow> string \<Rightarrow> writer \<Rightarrow> writer" where
  "write_base_node e objects obj_opt node_name w =
     (case obj_opt of
        None \<Rightarrow>
          write_base_node_data
            \<lparr>nd_name = node_name, childCount = count_root_children objects, active = True,
             transform = Matrix_identity\<rparr> w
      | Some obj \<Rightarrow>
          (let w1 = (if \<not> is_ac_object e (name obj) \<and> \<not> any_child_is_mesh obj
                     then warn (unknown_object_warning e (name obj)) w else w)
           in write_base_node_data
                \<lparr>nd_name = node_name, childCount = count_children (children obj), active = True,
                 transform = convert_matrix e (matrix_local obj)\<rparr> w1))"

text \<open>\<^verbatim>\<open>_write_mesh\<close>, in three parts around its \<^verbatim>\<open>raise\<close>.\<close>

definition write_vertex :: "writer \<Rightarrow> UvVertex \<Rightarrow> writer" where
  "write_vertex w vertex =
     write_vector3 (tangent vertex)
       (write_vector2 (uv vertex)
         (write_vector3 (normal vertex)
           (write_vector3 (co vertex) w)))"

definition write_mesh_head :: "obj \<Rightarrow> NodeProperties \<Rightarrow> writer \<Rightarrow> writer" where
  "write_mesh_head obj node_properties w =
     write_bool (transparent node_properties)
       (write_bool (visible node_properties)
         (write_bool (castShadows node_properties)
           (write_bool True
             (write_uint 0
               (write_string (name obj)
                 (write_node_class Mesh_class w))))))"

definition write_mesh_material :: "obj \<Rightarrow> Mesh \<Rightarrow> writer \<Rightarrow> writer" where
  "write_mesh_material obj mesh w =
     (case material_id mesh of
        None \<Rightarrow> write_uint 0 (warn (''No material to mesh '' @ quoted (name obj) @ '' assigned'') w)
      | Some mat_id \<Rightarrow> write_uint mat_id w)"

definition write_mesh_body :: "obj \<Rightarrow> Mesh \<Rightarrow> NodeProperties \<Rightarrow> writer \<Rightarrow> writer" where
  "write_mesh_body obj mesh node_properties w =
     (let w1 = write_uint (length (vertices mesh)) w;
          w2 = foldl write_vertex w1 (vertices mesh);
          w3 = write_uint (length (indices mesh)) w2;
          w4 = foldl (\<lambda>w i. write_ushort i w) w3 (indices mesh);
          w5 = write_mesh_material obj mesh w4;
          w6 = write_uint (layer node_properties) w5;
          w7 = write_float (lodIn node_properties) w6;
          w8 = write_float (lodOut node_properties) w7;
          w9 = write_bounding_sphere (vertices mesh) w8
      in write_bool (renderable node_properties) w9)"

definition write_mesh :: "obj \<Rightarrow> Mesh \<Rightarrow> NodeProperties \<Rightarrow> writer \<Rightarrow> outcome" where
  "write_mesh obj mesh node_properties w =
     (let w1 = write_mesh_head obj node_properties w in
      if length (vertices mesh) > 2 ^ 16
      then (Some (Exception (''Only 65536 vertices per mesh allowed. ('' @ quoted (name obj) @ '')'')), w1)
      else (None, write_mesh_body obj mesh node_properties w1))"

text \<open>The loop \<^verbatim>\<open>for mesh in divided_meshes\<close> of \<^verbatim>\<open>_write_mesh_node\<close>.\<close>

fun write_meshes :: "obj \<Rightarrow> Mesh list \<Rightarrow> NodeProperties \<Rightarrow> writer \<Rightarrow> outcome" where
  "write_meshes obj [] node_properties w = (None, w)"
| "write_meshes obj (mesh # rest) node_properties w =
     (case write_mesh obj mesh node_properties w of
        (Some err, w1) \<Rightarrow> (Some err, w1)
      | (None, w1) \<Rightarrow> write_meshes obj rest node_properties w1)"

text \<open>\<^verbatim>\<open>NodeProperties(obj)\<close> and the settings loop of \<^verbatim>\<open>_write_mesh_node\<close>.\<close>

definition NodeProperties_init :: "obj \<Rightarrow> NodeProperties" where
  "NodeProperties_init obj = foldl setattr NodeProperties_default (ac_properties obj)"

definition mesh_node_properties :: "env \<Rightarrow> obj \<Rightarrow> NodeProperties" where
  "mesh_node_properties e obj =
     foldl (\<lambda>node_properties node_setting. apply_settings_to_node node_setting node_properties)
       (NodeProperties_init obj) (node_settings e)"

text \<open>\<^verbatim>\<open>_write_mesh_node\<close>.\<close>

definition write_mesh_node :: "env \<Rightarrow> obj \<Rightarrow> writer \<Rightarrow> outcome" where
  "write_mesh_node e obj w =
     (case split_object_by_materials e obj of
        Inl err \<Rightarrow> (Some err, w)
      | Inr by_material \<Rightarrow>
          (case split_meshes_for_vertex_limit by_material of
             Inl err \<Rightarrow> (Some err, w)
           | Inr divided_meshes \<Rightarrow>
               (case (if parent obj \<noteq> None \<or> length divided_meshes > 1 then
                        (case (case parent obj of
                                 None \<Rightarrow> Some Matrix_identity
                               | Some parent_matrix_world \<Rightarrow>
                                   map_option (convert_matrix e) (inverted e parent_matrix_world)) of
                           None \<Rightarrow> (Some ValueError, w)
                         | Some transform_matrix \<Rightarrow>
                             (None,
                              write_base_node_data
                                \<lparr>nd_name = name obj, childCount = length divided_meshes,
                                 active = True, transform = transform_matrix\<rparr> w))
                      else (None, w)) of
                  (Some err, w1) \<Rightarrow> (Some err, w1)
                | (None, w1) \<Rightarrow> write_meshes obj divided_meshes (mesh_node_properties e obj) w1)))"

text \<open>
  \<^verbatim>\<open>_write_object\<close> with its loop over \<^verbatim>\<open>obj.children\<close>. The root call of
  \<^verbatim>\<open>_write_base_node\<close> is not made from here, so no object list is needed.
\<close>

fun write_object :: "env \<Rightarrow> obj \<Rightarrow> writer \<Rightarrow> outcome"
  and write_children :: "env \<Rightarrow> obj list \<Rightarrow> writer \<Rightarrow> outcome" where
  "write_object e (Obj nm ty vis par cs ml mw dims acp msh) w =
     (if \<not> startswith nm ''__'' \<and> vis then
        (case (if ty = ''MESH'' then
                 (if cs \<noteq> []
                  then (Some (Exception (''A mesh cannot contain children ('' @ quoted nm @ '')'')), w)
                  else write_mesh_node e (Obj nm ty vis par cs ml mw dims acp msh) w)
               else (None, write_base_node e [] (Some (Obj nm ty vis par cs ml mw dims acp msh)) nm w)) of
           (Some err, w1) \<Rightarrow> (Some err, w1)
         | (None, w1) \<Rightarrow> write_children e cs w1)
      else (None, w))"
| "write_children e [] w = (None, w)"
| "write_children e (child # rest) w =
     (if visible_get child then
        (case write_object e child w of
           (Some err, w1) \<Rightarrow> (Some err, w1)
         | (None, w1) \<Rightarrow> write_children e rest w1)
      else write_children e rest w)"

text \<open>\<^verbatim>\<open>NodeWriter.write\<close>: the root node, then the loop over the sorted objects.\<close>

fun write_top :: "env \<Rightarrow> obj list \<Rightarrow> writer \<Rightarrow> outcome" where
  "write_top e [] w = (None, w)"
| "write_top e (obj # rest) w =
     (if parent obj = None \<and> visible_get obj then
        (case write_object e obj w of
           (Some err, w1) \<Rightarrow> (Some err, w1)
         | (None, w1) \<Rightarrow> write_top e rest w1)
      else write_top e rest w)"

definition NodeWriter_write :: "env \<Rightarrow> obj list \<Rightarrow> writer \<Rightarrow> outcome" where
  "NodeWriter_write e objects w =
     (let w1 = write_base_node e objects None ''BlenderFile'' w
      in write_top e (sort_key (\<lambda>k. length (children k)) objects) w1)"

section \<open>Predicates and examples used in the statements\<close>

definition in_sentinel_range :: "real \<Rightarrow> bool" where
  "in_sentinel_range c \<longleftrightarrow> - 999999999 \<le> c \<and> c \<le> 999999999"

definition coords_in_range :: "UvVertex list \<Rightarrow> bool" where
  "coords_in_range vs =
     list_all (\<lambda>v. in_sentinel_range (c0 (co v)) \<and> in_sentinel_range (c1 (co v))
                  \<and> in_sentinel_range (c2 (co v))) vs"

definition xs_of :: "UvVertex list \<Rightarrow> real set" where "xs_of vs = (\<lambda>v. c0 (co v)) ` set vs"
definition ys_of :: "UvVertex list \<Rightarrow> real set" where "ys_of vs = (\<lambda>v. c1 (co v)) ` set vs"
definition zs_of :: "UvVertex list \<Rightarrow> real set" where "zs_of vs = (\<lambda>v. c2 (co v)) ` set vs"

text \<open>A vertex at a position, for the examples.\<close>

definition vtx :: "vec3 \<Rightarrow> UvVertex" where
  "vtx p = \<lparr>co = p, normal = (0, 0, 1), uv = (0, 0), tangent = (1, 0, 0)\<rparr>"

definition unit_cube :: "UvVertex list" where
  "unit_cube =
     map vtx [(0, 0, 0), (0, 0, 1), (0, 1, 0), (0, 1, 1), (1, 0, 0), (1, 0, 1), (1, 1, 0), (1, 1, 1)]"

definition empty_writer :: writer where
  "empty_writer = \<lparr>out = [], warnings = []\<rparr>"

text \<open>The index the dict stores for a key equal to the vertex, if any.\<close>

definition stored_index :: "UvVertex \<Rightarrow> vertex_dict \<Rightarrow> nat option" where
  "stored_index vertex vs = map_option snd (lookup_vertex vertex vs)"

text \<open>
  An environment and a one-triangle object, for the examples. The environment converts
  a vector from Z-up to Y-up, leaves matrices as they are, knows the inverse of the
  identity and of the uniform scaling by 2, and has one material, \<open>paint\<close>, with id 7.
\<close>

definition scale_by :: "real \<Rightarrow> matrix" where
  "scale_by k = [[k, 0, 0, 0], [0, k, 0, 0], [0, 0, k, 0], [0, 0, 0, 1]]"

definition env0 :: env where
  "env0 =
     \<lparr>convert_matrix = (\<lambda>m. m),
      convert_vector3 = (\<lambda>v. (c0 v, c2 v, - c1 v)),
      matmul = (\<lambda>m v. v),
      inverted = (\<lambda>m. if m = Matrix_identity then Some Matrix_identity
                      else if m = scale_by 2 then Some (scale_by (1 / 2)) else None),
      set_iter = remdups,
      is_ac_object = (\<lambda>n. False),
      linesep = [CHR 0x0A],
      material_positions = (\<lambda>n. if n = ''paint'' then Some (Some 7) else None),
      node_settings = []\<rparr>"

definition loop_at :: "nat \<Rightarrow> MeshLoop" where
  "loop_at i = \<lparr>vertex_index = i, loop_normal = (0, 0, 1), loop_tangent = (1, 0, 0)\<rparr>"

definition paint :: Material where
  "paint = \<lparr>mat_name = ''paint'', texture_slot = None\<rparr>"

definition one_triangle :: EvalMesh where
  "one_triangle =
     \<lparr>mesh_vertices = [(0, 0, 0), (1, 0, 0), (0, 1, 0)],
      mesh_loops = [loop_at 0, loop_at 1, loop_at 2],
      mesh_triangles = [\<lparr>loops = [0, 1, 2], material_index = 0\<rparr>],
      uv_layer = Some [(0, 0), (1, 0), (0, 1)],
      materials = [Some paint]\<rparr>"

definition one_quad :: EvalMesh where
  "one_quad =
     \<lparr>mesh_vertices = [(0, 0, 0), (1, 0, 0), (1, 1, 0), (0, 1, 0)],
      mesh_loops = [loop_at 0, loop_at 1, loop_at 2, loop_at 3],
      mesh_triangles = [\<lparr>loops = [0, 1, 2, 3], material_index = 0\<rparr>],
      uv_layer = Some [(0, 0), (1, 0), (1, 1), (0, 1)],
      materials = [Some paint]\<rparr>"

definition mesh_object :: "string \<Rightarrow> matrix option \<Rightarrow> obj list \<Rightarrow> EvalMesh \<Rightarrow> obj" where
  "mesh_object nm par cs m =
     Obj nm ''MESH'' True par cs Matrix_identity Matrix_identity (1, 1, 1) [] m"

definition empty_object :: "string \<Rightarrow> matrix option \<Rightarrow> obj list \<Rightarrow> obj" where
  "empty_object nm par cs =
     Obj nm ''EMPTY'' True par cs Matrix_identity Matrix_identity (0, 0, 0) []
       \<lparr>mesh_vertices = [], mesh_loops = [], mesh_triangles = [], uv_layer = None,
        materials = []\<rparr>"

definition tri_obj :: obj where
  "tri_obj = mesh_object ''tri'' None [] one_triangle"

definition quad_obj :: obj where
  "quad_obj = mesh_object ''quad'' None [] one_quad"

text \<open>The vertex \<open>env0\<close> builds for a loop at a position with a UV.\<close>

definition built :: "vec3 \<Rightarrow> vec2 \<Rightarrow> UvVertex" where
  "built p t = \<lparr>co = (c0 p, c2 p, - c1 p), normal = (0, 1, 0), uv = (fst t, - snd t),
                tangent = (1, 0, 0)\<rparr>"

text \<open>
  The winding as the specification words it: a face with the indices \<open>A, B, C\<close> is
  written as \<open>B, C, A\<close>, and one with \<open>A, B, C, D\<close> as \<open>B, C, A\<close> then \<open>C, D, A\<close>.
\<close>

fun spec_winding :: "nat list \<Rightarrow> nat list" where
  "spec_winding [a, b, c] = [b, c, a]"
| "spec_winding [a, b, c, d] = [b, c, a, c, d, a]"
| "spec_winding face_indices = []"

text \<open>
  A triangle of the material can be grouped: it has three or four loops, and a vertex
  is built for each of them.
\<close>

definition face_ok :: "env \<Rightarrow> obj \<Rightarrow> EvalMesh \<Rightarrow> nat \<Rightarrow> LoopTriangle \<Rightarrow> bool" where
  "face_ok e obj mesh mi t =
     ((length (loops t) = 3 \<or> length (loops t) = 4)
      \<and> list_all (\<lambda>l. \<not> isl (loop_vertex e obj mesh mi l)) (loops t))"

text \<open>
  The dict \<open>vs\<close> holds the index \<open>i\<close> for the vertex of the loop \<open>l\<close>.
\<close>

definition index_of_loop :: "env \<Rightarrow> obj \<Rightarrow> EvalMesh \<Rightarrow> nat \<Rightarrow> vertex_dict \<Rightarrow> nat \<Rightarrow> nat \<Rightarrow> bool" where
  "index_of_loop e obj mesh mi vs l i =
     (case loop_vertex e obj mesh mi l of
        Inl err \<Rightarrow> False
      | Inr v \<Rightarrow> stored_index v vs = Some i)"

text \<open>
  Two triangles of material 0 that share an edge, with a triangle of material 1
  between them.
\<close>

definition fan :: EvalMesh where
  "fan =
     \<lparr>mesh_vertices = [(0, 0, 0), (1, 0, 0), (1, 1, 0), (0, 1, 0)],
      mesh_loops = [loop_at 0, loop_at 1, loop_at 2, loop_at 0, loop_at 1, loop_at 3,
                    loop_at 0, loop_at 2, loop_at 3],
      mesh_triangles = [\<lparr>loops = [0, 1, 2], material_index = 0\<rparr>,
                        \<lparr>loops = [3, 4, 5], material_index = 1\<rparr>,
                        \<lparr>loops = [6, 7, 8], material_index = 0\<rparr>],
      uv_layer = Some [(0, 0), (1, 0), (1, 1), (0, 0), (1, 0), (0, 1), (0, 0), (1, 1), (0, 1)],
      materials = [Some paint, Some paint]\<rparr>"

definition fan_obj :: obj where
  "fan_obj = mesh_object ''fan'' None [] fan"

text \<open>A mesh object that has a child, and an excluded object with a mesh below it.\<close>

definition mesh_with_child :: obj where
  "mesh_with_child =
     mesh_object ''body'' None [empty_object ''child'' (Some Matrix_identity) []] one_triangle"

definition helper_subtree :: obj where
  "helper_subtree =
     empty_object ''__helper'' None [mesh_object ''tri'' (Some Matrix_identity) [] one_triangle]"

definition root_tokens :: "nat \<Rightarrow> token list" where
  "root_tokens n = [UInt 1, Str ''BlenderFile'', UInt n, Bool True, Mat Matrix_identity]"

text \<open>
  \<open>visits e p w d w'\<close>: the call \<^verbatim>\<open>_write_object(p)\<close>, made when the writer is \<open>w\<close>,
  leads to the call \<^verbatim>\<open>_write_object(d)\<close> with the writer \<open>w'\<close>. Either \<open>d\<close> is \<open>p\<close>
  itself, or \<open>p\<close> is a visible generic object that is not excluded, its node is
  written, its children before the visible child \<open>c\<close> are written without an
  exception, and the call for \<open>c\<close> leads to the call for \<open>d\<close>.
\<close>

inductive visits :: "env \<Rightarrow> obj \<Rightarrow> writer \<Rightarrow> obj \<Rightarrow> writer \<Rightarrow> bool" where
  visits_here: "visits e p w p w"
| visits_below:
    "\<not> startswith (name p) ''__'' \<Longrightarrow> visible_get p \<Longrightarrow> type p \<noteq> ''MESH'' \<Longrightarrow>
     children p = before @ c # after \<Longrightarrow>
     write_children e before (write_base_node e [] (Some p) (name p) w) = (None, w1) \<Longrightarrow>
     visible_get c \<Longrightarrow> visits e c w1 d w' \<Longrightarrow> visits e p w d w'"

text \<open>
  A scene of depth three: \<open>car\<close> holds \<open>seat\<close> and \<open>axle\<close>, \<open>axle\<close> holds the mesh
  \<open>wheel\<close>, and \<open>wheel\<close> has the child \<open>nut\<close>.
\<close>

definition nut :: obj where
  "nut = empty_object ''nut'' (Some Matrix_identity) []"

definition wheel :: obj where
  "wheel = mesh_object ''wheel'' (Some Matrix_identity) [nut] one_triangle"

definition axle :: obj where
  "axle = empty_object ''axle'' (Some Matrix_identity) [wheel]"

definition seat :: obj where
  "seat = empty_object ''seat'' (Some Matrix_identity) []"

definition car :: obj where
  "car = empty_object ''car'' None [seat, axle]"

definition wheel_error :: error where
  "wheel_error = Exception (''A mesh cannot contain children ('' @ quoted ''wheel'' @ '')'')"

text \<open>
  A mesh object whose only material is not a key of \<open>material_positions env0\<close>, and a
  mesh object with a material slot and no face.
\<close>

definition rubber_triangle :: EvalMesh where
  "rubber_triangle = one_triangle\<lparr>materials := [Some \<lparr>mat_name = ''rubber'', texture_slot = None\<rparr>]\<rparr>"

definition rubber_obj :: obj where
  "rubber_obj = mesh_object ''tyre'' None [] rubber_triangle"

definition no_faces :: EvalMesh where
  "no_faces =
     \<lparr>mesh_vertices = [(0, 0, 0)], mesh_loops = [], mesh_triangles = [],
      uv_layer = Some [], materials = [Some paint]\<rparr>"

definition points_obj :: obj where
  "points_obj = mesh_object ''points'' None [] no_faces"

text \<open>
  What the splitter's input and output look like. \<open>mesh_ok\<close>: the index list is made
  of whole triangles and every index is a position of the vertex buffer.
  \<open>sub_group_of limit mesh chunk g\<close>: \<open>g\<close> is a sub-group of \<open>mesh\<close> for the slice
  \<open>chunk\<close> of its index list: it has the material of \<open>mesh\<close>, the chunk is made of
  whole triangles, \<open>g\<close> has at most \<open>limit\<close> vertices, and the indices of \<open>g\<close> name, one by
  one, the vertices that the chunk names in \<open>mesh\<close>. \<open>split_part\<close>: the groups produced
  for one input mesh.
\<close>

definition mesh_ok :: "Mesh \<Rightarrow> bool" where
  "mesh_ok m \<longleftrightarrow> 3 dvd length (indices m) \<and> list_all (\<lambda>k. k < length (vertices m)) (indices m)"

definition sub_group_of :: "nat \<Rightarrow> Mesh \<Rightarrow> nat list \<Rightarrow> Mesh \<Rightarrow> bool" where
  "sub_group_of limit mesh chunk g \<longleftrightarrow>
     material_id g = material_id mesh \<and> 3 dvd length chunk \<and>
     length (indices g) = length chunk \<and> length (vertices g) \<le> limit \<and>
     list_all (\<lambda>j. j < length (vertices g)) (indices g) \<and>
     map (\<lambda>j. vertices g ! j) (indices g) = map (\<lambda>k. vertices mesh ! k) chunk"

definition split_part :: "nat \<Rightarrow> Mesh \<Rightarrow> Mesh list \<Rightarrow> bool" where
  "split_part limit mesh part \<longleftrightarrow>
     (if length (vertices mesh) > limit
      then (\<exists>chunks. concat chunks = indices mesh \<and> list_all2 (sub_group_of limit mesh) chunks part)
      else part = [mesh])"

text \<open>Invariant of \<^verbatim>\<open>vertex_index_mapping\<close>: the values count up from 0, the keys differ.\<close>

definition wf_map :: "index_dict \<Rightarrow> bool" where
  "wf_map m \<longleftrightarrow> map snd m = [0..<length m] \<and> distinct (map fst m)"

definition keys_of :: "index_dict \<Rightarrow> nat list \<Rightarrow> nat list" where
  "keys_of m js = map (\<lambda>j. fst (m ! j)) js"

text \<open>Invariant of the dict \<^verbatim>\<open>vertices\<close>: the values count up from 0.\<close>

definition wf_vdict :: "vertex_dict \<Rightarrow> bool" where
  "wf_vdict vs \<longleftrightarrow> map snd vs = [0..<length vs]"

text \<open>
  An oversized mesh: 65537 vertices and two triangles. And a mesh of nine vertices and
  four triangles, to run the splitting loop with the limit 8.
\<close>

definition big_mesh :: Mesh where
  "big_mesh =
     \<lparr>material_id = Some 7, vertices = replicate 65537 (vtx (0, 0, 0)),
      indices = [0, 1, 2, 2, 1, 0]\<rparr>"

definition nine_mesh :: Mesh where
  "nine_mesh =
     \<lparr>material_id = Some 7,
      vertices = map (\<lambda>x. vtx (x, 0, 0)) [0, 1, 2, 3, 4, 5, 6, 7, 8],
      indices = [0, 1, 2, 2, 1, 3, 4, 5, 6, 0, 7, 8]\<rparr>"

text \<open>
  The records as the specification lists their fields: a generic node (class tag,
  name, child count, active flag, transform) and a Mesh record (class tag, name,
  child count 0, active flag, the three booleans, the vertices, the indices, the
  material reference, layer, LOD in and out, bounding sphere, renderable flag),
  with the warning a Mesh record without material id adds.
\<close>

definition node_record :: "string \<Rightarrow> nat \<Rightarrow> matrix \<Rightarrow> token list" where
  "node_record nm n t = [UInt 1, Str nm, UInt n, Bool True, Mat t]"

definition vertex_tokens :: "UvVertex \<Rightarrow> token list" where
  "vertex_tokens v = [Vec3 (co v), Vec3 (normal v), Vec2 (uv v), Vec3 (tangent v)]"

definition mesh_record :: "obj \<Rightarrow> NodeProperties \<Rightarrow> Mesh \<Rightarrow> token list" where
  "mesh_record obj p mesh =
     [UInt 2, Str (name obj), UInt 0, Bool True,
      Bool (castShadows p), Bool (visible p), Bool (transparent p),
      UInt (length (vertices mesh))]
     @ concat (map vertex_tokens (vertices mesh))
     @ [UInt (length (indices mesh))]
     @ map UShort (indices mesh)
     @ [UInt (case material_id mesh of None \<Rightarrow> 0 | Some i \<Rightarrow> i),
        UInt (layer p), Float (lodIn p), Float (lodOut p),
        Vec3 (sphere_center (bounds_of (vertices mesh))),
        Float (sphere_radius (bounds_of (vertices mesh))),
        Bool (renderable p)]"

definition mesh_warnings :: "obj \<Rightarrow> Mesh \<Rightarrow> string list" where
  "mesh_warnings obj mesh =
     (case material_id mesh of
        None \<Rightarrow> [''No material to mesh '' @ quoted (name obj) @ '' assigned'']
      | Some i \<Rightarrow> [])"

definition wrote :: "writer \<Rightarrow> token list \<Rightarrow> string list \<Rightarrow> writer" where
  "wrote w ts ws = w\<lparr>out := out w @ ts, warnings := warnings w @ ws\<rparr>"

text \<open>A mesh object below a parent, and a parentless one, each of one triangle.\<close>

definition child_tri :: obj where
  "child_tri = mesh_object ''wing'' (Some (scale_by 2)) [] one_triangle"

definition one_triangle_group :: Mesh where
  "one_triangle_group =
     \<lparr>material_id = Some 7,
      vertices = [built (0, 0, 0) (0, 0), built (1, 0, 0) (1, 0), built (0, 1, 0) (0, 1)],
      indices = [1, 2, 0]\<rparr>"

text \<open>The same mesh below a parent scaled to zero, whose world matrix has no inverse.\<close>

definition sing_child :: obj where
  "sing_child = mesh_object ''wing'' (Some (scale_by 0)) [] one_triangle"

text \<open>
  The writer of the scene \<open>car\<close> when the export reaches the mesh \<open>wheel\<close>.
\<close>

definition before_wheel :: writer where
  "before_wheel =
     \<lparr>out = root_tokens 1 @ node_record ''car'' 2 Matrix_identity
              @ node_record ''seat'' 0 Matrix_identity @ node_record ''axle'' 1 Matrix_identity,
      warnings = [unknown_object_warning env0 ''seat'']\<rparr>"

section \<open>Bounding volume: what is written\<close>

lemma bounds_step_fields:
  "max_x (bounds_step b v) = max (max_x b) (c0 (co v))"
  "min_x (bounds_step b v) = min (min_x b) (c0 (co v))"
  "max_y (bounds_step b v) = max (max_y b) (c1 (co v))"
  "min_y (bounds_step b v) = min (min_y b) (c1 (co v))"
  "max_z (bounds_step b v) = max (max_z b) (c2 (co v))"
  "min_z (bounds_step b v) = min (min_z b) (c2 (co v))"
  by (simp_all add: bounds_step_def Let_def max_def min_def)

lemma Max_insert_max:
  fixes a :: real
  assumes "finite S"
  shows "Max (insert (max a x) S) = max a (Max (insert x S))"
proof (cases "S = {}")
  case True
  then show ?thesis by simp
next
  case False
  then show ?thesis using assms by (simp add: max.assoc)
qed

lemma Min_insert_min:
  fixes a :: real
  assumes "finite S"
  shows "Min (insert (min a x) S) = min a (Min (insert x S))"
proof (cases "S = {}")
  case True
  then show ?thesis by simp
next
  case False
  then show ?thesis using assms by (simp add: min.assoc)
qed

lemma foldl_bounds_max_x:
  "max_x (foldl bounds_step b vs) = Max (insert (max_x b) ((\<lambda>v. c0 (co v)) ` set vs))"
  by (induction vs arbitrary: b) (simp_all add: bounds_step_fields Max_insert_max)

lemma foldl_bounds_min_x:
  "min_x (foldl bounds_step b vs) = Min (insert (min_x b) ((\<lambda>v. c0 (co v)) ` set vs))"
  by (induction vs arbitrary: b) (simp_all add: bounds_step_fields Min_insert_min)

lemma foldl_bounds_max_y:
  "max_y (foldl bounds_step b vs) = Max (insert (max_y b) ((\<lambda>v. c1 (co v)) ` set vs))"
  by (induction vs arbitrary: b) (simp_all add: bounds_step_fields Max_insert_max)

lemma foldl_bounds_min_y:
  "min_y (foldl bounds_step b vs) = Min (insert (min_y b) ((\<lambda>v. c1 (co v)) ` set vs))"
  by (induction vs arbitrary: b) (simp_all add: bounds_step_fields Min_insert_min)

lemma foldl_bounds_max_z:
  "max_z (foldl bounds_step b vs) = Max (insert (max_z b) ((\<lambda>v. c2 (co v)) ` set vs))"
  by (induction vs arbitrary: b) (simp_all add: bounds_step_fields Max_insert_max)

lemma foldl_bounds_min_z:
  "min_z (foldl bounds_step b vs) = Min (insert (min_z b) ((\<lambda>v. c2 (co v)) ` set vs))"
  by (induction vs arbitrary: b) (simp_all add: bounds_step_fields Min_insert_min)

lemma Max_insert_low:
  fixes A :: "real set"
  assumes "finite A" "A \<noteq> {}" "\<forall>a\<in>A. s \<le> a"
  shows "Max (insert s A) = Max A"
proof -
  obtain a where "a \<in> A" using assms(2) by blast
  then have "s \<le> Max A" using assms by (meson Max_ge order_trans)
  then show ?thesis using assms by (simp add: max_absorb2)
qed

lemma Min_insert_high:
  fixes A :: "real set"
  assumes "finite A" "A \<noteq> {}" "\<forall>a\<in>A. a \<le> s"
  shows "Min (insert s A) = Min A"
proof -
  obtain a where "a \<in> A" using assms(2) by blast
  then have "Min A \<le> s" using assms by (meson Min_le order_trans)
  then show ?thesis using assms by (simp add: min_absorb2)
qed

lemma bounds_of_in_range:
  assumes "vs \<noteq> []" and "coords_in_range vs"
  shows "bounds_of vs =
     \<lparr>max_x = Max (xs_of vs), max_y = Max (ys_of vs), max_z = Max (zs_of vs),
      min_x = Min (xs_of vs), min_y = Min (ys_of vs), min_z = Min (zs_of vs)\<rparr>"
proof -
  have ne: "xs_of vs \<noteq> {}" "ys_of vs \<noteq> {}" "zs_of vs \<noteq> {}"
    and fin: "finite (xs_of vs)" "finite (ys_of vs)" "finite (zs_of vs)"
    using assms(1) by (simp_all add: xs_of_def ys_of_def zs_of_def)
  have lo: "\<forall>a\<in>xs_of vs. - 999999999 \<le> a" "\<forall>a\<in>ys_of vs. - 999999999 \<le> a"
      "\<forall>a\<in>zs_of vs. - 999999999 \<le> a"
    and hi: "\<forall>a\<in>xs_of vs. a \<le> 999999999" "\<forall>a\<in>ys_of vs. a \<le> 999999999"
      "\<forall>a\<in>zs_of vs. a \<le> 999999999"
    using assms(2)
    by (auto simp: xs_of_def ys_of_def zs_of_def in_sentinel_range_def coords_in_range_def
        list_all_iff)
  have "max_x (bounds_of vs) = Max (xs_of vs)"
    unfolding bounds_of_def foldl_bounds_max_x xs_of_def[symmetric]
    using Max_insert_low[OF fin(1) ne(1) lo(1)] by (simp add: bounds_init_def)
  moreover have "max_y (bounds_of vs) = Max (ys_of vs)"
    unfolding bounds_of_def foldl_bounds_max_y ys_of_def[symmetric]
    using Max_insert_low[OF fin(2) ne(2) lo(2)] by (simp add: bounds_init_def)
  moreover have "max_z (bounds_of vs) = Max (zs_of vs)"
    unfolding bounds_of_def foldl_bounds_max_z zs_of_def[symmetric]
    using Max_insert_low[OF fin(3) ne(3) lo(3)] by (simp add: bounds_init_def)
  moreover have "min_x (bounds_of vs) = Min (xs_of vs)"
    unfolding bounds_of_def foldl_bounds_min_x xs_of_def[symmetric]
    using Min_insert_high[OF fin(1) ne(1) hi(1)] by (simp add: bounds_init_def)
  moreover have "min_y (bounds_of vs) = Min (ys_of vs)"
    unfolding bounds_of_def foldl_bounds_min_y ys_of_def[symmetric]
    using Min_insert_high[OF fin(2) ne(2) hi(2)] by (simp add: bounds_init_def)
  moreover have "min_z (bounds_of vs) = Min (zs_of vs)"
    unfolding bounds_of_def foldl_bounds_min_z zs_of_def[symmetric]
    using Min_insert_high[OF fin(3) ne(3) hi(3)] by (simp add: bounds_init_def)
  ultimately show ?thesis by simp
qed

text \<open>
  C5, as the code has it. For a non-empty vertex list whose coordinates all lie in
  \<open>[-999999999, 999999999]\<close>, \<^verbatim>\<open>_write_bounding_sphere\<close> writes the per-axis midpoint
  of the minimum and maximum as the center, and the largest of the three axis extents
  as the radius. (Outside that range an accumulator can keep its initial value.)
\<close>

theorem bounding_sphere_in_range:
  assumes "vs \<noteq> []" and "coords_in_range vs"
  shows "write_bounding_sphere vs w =
     w\<lparr>out := out w @
        [Vec3 ((Min (xs_of vs) + Max (xs_of vs)) / 2,
               (Min (ys_of vs) + Max (ys_of vs)) / 2,
               (Min (zs_of vs) + Max (zs_of vs)) / 2),
         Float (max (max (Max (xs_of vs) - Min (xs_of vs)) (Max (ys_of vs) - Min (ys_of vs)))
                  (Max (zs_of vs) - Min (zs_of vs)))]\<rparr>"
proof -
  let ?b = "\<lparr>max_x = Max (xs_of vs), max_y = Max (ys_of vs), max_z = Max (zs_of vs),
      min_x = Min (xs_of vs), min_y = Min (ys_of vs), min_z = Min (zs_of vs)\<rparr>"
  have half: "max (max (a / 2) (b / 2)) (c / 2) * 2 = max (max a b) c" for a b c :: real
    by (simp add: max_def)
  have mid: "a + (b - a) / 2 = (a + b) / 2" for a b :: real
    by (simp add: field_simps)
  have c: "sphere_center ?b = ((Min (xs_of vs) + Max (xs_of vs)) / 2,
               (Min (ys_of vs) + Max (ys_of vs)) / 2,
               (Min (zs_of vs) + Max (zs_of vs)) / 2)"
    by (simp add: sphere_center_def mid)
  have r: "sphere_radius ?b =
      max (max (Max (xs_of vs) - Min (xs_of vs)) (Max (ys_of vs) - Min (ys_of vs)))
                  (Max (zs_of vs) - Min (zs_of vs))"
    by (simp add: sphere_radius_def half)
  show ?thesis
    unfolding write_bounding_sphere_def Let_def bounds_of_in_range[OF assms] c r
    by (simp add: write_float_def write_vector3_def emit_def)
qed

text \<open>
  Witness for C5, the example of the specification: for the eight corners of the
  unit cube the center written is (0.5, 0.5, 0.5) and the radius is 1.
\<close>

theorem bounding_sphere_unit_cube:
  "unit_cube \<noteq> [] \<and> coords_in_range unit_cube \<and>
   write_bounding_sphere unit_cube empty_writer =
     \<lparr>out = [Vec3 (1 / 2, 1 / 2, 1 / 2), Float 1], warnings = []\<rparr>"
proof -
  have ne: "unit_cube \<noteq> []" by (simp add: unit_cube_def)
  have rng: "coords_in_range unit_cube"
    by (simp add: unit_cube_def coords_in_range_def in_sentinel_range_def vtx_def
        c0_def c1_def c2_def)
  have x: "xs_of unit_cube = {0, 1}" by (auto simp: xs_of_def unit_cube_def vtx_def c0_def)
  have y: "ys_of unit_cube = {0, 1}" by (auto simp: ys_of_def unit_cube_def vtx_def c1_def)
  have z: "zs_of unit_cube = {0, 1}" by (auto simp: zs_of_def unit_cube_def vtx_def c2_def)
  show ?thesis
    using ne rng bounding_sphere_in_range[OF ne rng, of empty_writer]
    by (simp add: x y z empty_writer_def)
qed

text \<open>
  C5 as stated, for every non-empty vertex set, fails: a single vertex at
  \<open>(2000000000, 0, 0)\<close> has minimum and maximum 2000000000 on the first axis, so
  midpoint 2000000000 and extent 0, but the minimum accumulator stays at 999999999
  and the writer emits center 1499999999.5 and radius 1000000001.
\<close>

theorem bounding_sphere_far_vertex:
  "[vtx (2000000000, 0, 0)] \<noteq> [] \<and>
   Min (xs_of [vtx (2000000000, 0, 0)]) = 2000000000 \<and>
   Max (xs_of [vtx (2000000000, 0, 0)]) = 2000000000 \<and>
   write_bounding_sphere [vtx (2000000000, 0, 0)] empty_writer =
     \<lparr>out = [Vec3 (2999999999 / 2, 0, 0), Float 1000000001], warnings = []\<rparr>"
  by (simp add: write_bounding_sphere_def bounds_of_def vtx_def bounds_step_def
      bounds_init_def c0_def c1_def c2_def sphere_center_def sphere_radius_def Let_def
      write_float_def write_vector3_def emit_def xs_of_def empty_writer_def)

text \<open>
  C10. On an empty vertex list nothing fails: the accumulators are the initial
  sentinels, the center written is (0, 0, 0) and the radius is -1999999998. A maximum
  accumulator cannot fall below -999999999 (nor a minimum rise above 999999999): for a
  vertex at \<open>(-2000000000, 0, 0)\<close> the first maximum stays at the sentinel.
\<close>

theorem bounding_sphere_empty:
  "bounds_of [] = bounds_init \<and>
   write_bounding_sphere [] w = w\<lparr>out := out w @ [Vec3 (0, 0, 0), Float (- 1999999998)]\<rparr> \<and>
   max_x (bounds_of [vtx (- 2000000000, 0, 0)]) = - 999999999 \<and>
   min_x (bounds_of [vtx (- 2000000000, 0, 0)]) = - 2000000000"
  by (simp add: write_bounding_sphere_def bounds_of_def bounds_init_def sphere_center_def
      sphere_radius_def Let_def write_float_def write_vector3_def emit_def bounds_step_def
      vtx_def c0_def c1_def c2_def)

section \<open>Vertex deduplication and winding\<close>

lemma UvVertex_eq_sym: "UvVertex_eq a b \<Longrightarrow> UvVertex_eq b a"
  by (simp add: UvVertex_eq_def)

lemma UvVertex_eq_trans: "UvVertex_eq a b \<Longrightarrow> UvVertex_eq b c \<Longrightarrow> UvVertex_eq a c"
  by (simp add: UvVertex_eq_def)

lemma lookup_vertex_append:
  "lookup_vertex v (vs @ ws) =
     (case lookup_vertex v vs of None \<Rightarrow> lookup_vertex v ws | Some item \<Rightarrow> Some item)"
  by (induction vs) (simp_all add: lookup_vertex_def)

lemma lookup_vertex_cong: "UvVertex_eq a b \<Longrightarrow> lookup_vertex a vs = lookup_vertex b vs"
  by (induction vs) (auto simp: lookup_vertex_def UvVertex_eq_def)

lemma lookup_vertex_self: "lookup_vertex v [(v, n)] = Some (v, n)"
  by (simp add: lookup_vertex_def UvVertex_eq_def)

lemma insert_vertex_stored:
  "insert_vertex v vs = (vs', i) \<Longrightarrow> stored_index v vs' = Some i"
proof (cases "lookup_vertex v vs")
  case None
  assume "insert_vertex v vs = (vs', i)"
  then have "vs' = vs @ [(v, length vs)]" "i = length vs"
    using None by (auto simp: insert_vertex_def)
  then show ?thesis
    using None by (simp add: stored_index_def lookup_vertex_append lookup_vertex_self)
next
  case (Some item)
  assume "insert_vertex v vs = (vs', i)"
  then have "vs' = vs" "i = snd item"
    using Some by (auto simp: insert_vertex_def)
  then show ?thesis using Some by (simp add: stored_index_def)
qed

lemma insert_vertex_keeps:
  "insert_vertex v vs = (vs', i) \<Longrightarrow> stored_index u vs = Some j \<Longrightarrow> stored_index u vs' = Some j"
  by (auto simp: insert_vertex_def stored_index_def lookup_vertex_append split: option.splits)

lemma insert_vertex_twice:
  assumes "UvVertex_eq v2 v1"
  shows "fst (insert_vertex v2 (fst (insert_vertex v1 vs))) = fst (insert_vertex v1 vs)"
proof -
  obtain vs' i where r: "insert_vertex v1 vs = (vs', i)" by (cases "insert_vertex v1 vs")
  have "stored_index v1 vs' = Some i" using insert_vertex_stored[OF r] .
  then have "lookup_vertex v1 vs' \<noteq> None" by (auto simp: stored_index_def)
  then have "lookup_vertex v2 vs' \<noteq> None" using lookup_vertex_cong[OF assms] by simp
  then show ?thesis using r by (auto simp: insert_vertex_def split: option.splits)
qed

lemma vertex_dedup_parts:
  assumes "UvVertex_eq v2 v1"
  shows "fst (insert_vertex v2 (fst (insert_vertex v1 vs))) = fst (insert_vertex v1 vs)"
    and "snd (insert_vertex v2 (fst (insert_vertex v1 vs))) = snd (insert_vertex v1 vs)"
    and "vertex_buffer (fst (insert_vertex v2 (fst (insert_vertex v1 vs))))
           = vertex_buffer (fst (insert_vertex v1 vs))"
    and "vertex_buffer (fst (insert_vertex v2 (fst (insert_vertex v1 [])))) = [v1]"
    and "UvVertex_eq (v\<lparr>tangent := t\<rparr>) v"
    and "UvVertex_hash (v\<lparr>tangent := t\<rparr>) = UvVertex_hash v"
proof -
  show 1: "fst (insert_vertex v2 (fst (insert_vertex v1 vs))) = fst (insert_vertex v1 vs)"
    using insert_vertex_twice[OF assms] .
  obtain vs' i where r: "insert_vertex v1 vs = (vs', i)" by (cases "insert_vertex v1 vs")
  have "stored_index v1 vs' = Some i" using insert_vertex_stored[OF r] .
  then have "stored_index v2 vs' = Some i"
    using lookup_vertex_cong[OF assms] by (simp add: stored_index_def)
  then show "snd (insert_vertex v2 (fst (insert_vertex v1 vs))) = snd (insert_vertex v1 vs)"
    using r by (auto simp: insert_vertex_def stored_index_def split: option.splits)
  show "vertex_buffer (fst (insert_vertex v2 (fst (insert_vertex v1 vs))))
           = vertex_buffer (fst (insert_vertex v1 vs))"
    using 1 by simp
  have "fst (insert_vertex v1 []) = [(v1, 0)]"
    by (simp add: insert_vertex_def lookup_vertex_def)
  then show "vertex_buffer (fst (insert_vertex v2 (fst (insert_vertex v1 [])))) = [v1]"
    using insert_vertex_twice[OF assms, of "[]"] by (simp add: vertex_buffer_def)
  show "UvVertex_eq (v\<lparr>tangent := t\<rparr>) v" by (simp add: UvVertex_eq_def)
  show "UvVertex_hash (v\<lparr>tangent := t\<rparr>) = UvVertex_hash v" by (simp add: UvVertex_hash_def)
qed

text \<open>
  C4. Inserting a vertex whose position, normal and UV equal those of a vertex inserted
  before leaves the dict as it is: no entry is added and the stored key, with the
  tangent of the first insertion, stays. The vertex buffer read from the dict is then
  unchanged as well, and from the empty dict it is the first vertex alone. Equality and
  the hashed tuple do not depend on the tangent.
\<close>

theorem vertex_dedup_idempotent:
  assumes "UvVertex_eq v2 v1"
  shows "fst (insert_vertex v2 (fst (insert_vertex v1 vs))) = fst (insert_vertex v1 vs)
    \<and> snd (insert_vertex v2 (fst (insert_vertex v1 vs))) = snd (insert_vertex v1 vs)
    \<and> vertex_buffer (fst (insert_vertex v2 (fst (insert_vertex v1 vs))))
           = vertex_buffer (fst (insert_vertex v1 vs))
    \<and> vertex_buffer (fst (insert_vertex v2 (fst (insert_vertex v1 [])))) = [v1]
    \<and> UvVertex_eq (v\<lparr>tangent := t\<rparr>) v
    \<and> UvVertex_hash (v\<lparr>tangent := t\<rparr>) = UvVertex_hash v"
  using vertex_dedup_parts[OF assms] by blast

text \<open>
  Witness for C4: the same position, normal and UV inserted with tangent (1, 0, 0) and
  then with tangent (0, 1, 0); the buffer holds one vertex, with tangent (1, 0, 0).
\<close>

theorem vertex_dedup_witness:
  "UvVertex_eq (vtx (1, 2, 3)\<lparr>tangent := (0, 1, 0)\<rparr>) (vtx (1, 2, 3)) \<and>
   vertex_buffer (fst (insert_vertex (vtx (1, 2, 3)\<lparr>tangent := (0, 1, 0)\<rparr>)
                          (fst (insert_vertex (vtx (1, 2, 3)) [])))) = [vtx (1, 2, 3)] \<and>
   map tangent (vertex_buffer (fst (insert_vertex (vtx (1, 2, 3)\<lparr>tangent := (0, 1, 0)\<rparr>)
                          (fst (insert_vertex (vtx (1, 2, 3)) []))))) = [(1, 0, 0)]"
proof -
  have e: "UvVertex_eq (vtx (1, 2, 3)\<lparr>tangent := (0, 1, 0)\<rparr>) (vtx (1, 2, 3))"
    by (simp add: UvVertex_eq_def vtx_def)
  have f: "vertex_buffer (fst (insert_vertex (vtx (1, 2, 3)\<lparr>tangent := (0, 1, 0)\<rparr>)
                          (fst (insert_vertex (vtx (1, 2, 3)) [])))) = [vtx (1, 2, 3)]"
    using vertex_dedup_idempotent[OF e] by blast
  show ?thesis
    using e f by (simp add: vtx_def)
qed

lemma face_loop_three:
  assumes "loop_vertex e obj mesh mi l0 = Inr v0"
    and "loop_vertex e obj mesh mi l1 = Inr v1"
    and "loop_vertex e obj mesh mi l2 = Inr v2"
  shows "\<exists>vs' a b c. face_loop e obj mesh mi [l0, l1, l2] vs [] = Inr (vs', [a, b, c])
           \<and> stored_index v0 vs' = Some a \<and> stored_index v1 vs' = Some b
           \<and> stored_index v2 vs' = Some c"
proof -
  obtain vs0 a where r0: "insert_vertex v0 vs = (vs0, a)" by (cases "insert_vertex v0 vs")
  obtain vs1 b where r1: "insert_vertex v1 vs0 = (vs1, b)" by (cases "insert_vertex v1 vs0")
  obtain vs2 c where r2: "insert_vertex v2 vs1 = (vs2, c)" by (cases "insert_vertex v2 vs1")
  have "face_loop e obj mesh mi [l0, l1, l2] vs [] = Inr (vs2, [a, b, c])"
    using assms r0 r1 r2 by simp
  moreover have "stored_index v0 vs2 = Some a"
    using insert_vertex_keeps[OF r2 insert_vertex_keeps[OF r1 insert_vertex_stored[OF r0]]] .
  moreover have "stored_index v1 vs2 = Some b"
    using insert_vertex_keeps[OF r2 insert_vertex_stored[OF r1]] .
  moreover have "stored_index v2 vs2 = Some c"
    using insert_vertex_stored[OF r2] .
  ultimately show ?thesis by blast
qed

lemma face_loop_four:
  assumes "loop_vertex e obj mesh mi l0 = Inr v0"
    and "loop_vertex e obj mesh mi l1 = Inr v1"
    and "loop_vertex e obj mesh mi l2 = Inr v2"
    and "loop_vertex e obj mesh mi l3 = Inr v3"
  shows "\<exists>vs' a b c d. face_loop e obj mesh mi [l0, l1, l2, l3] vs [] = Inr (vs', [a, b, c, d])
           \<and> stored_index v0 vs' = Some a \<and> stored_index v1 vs' = Some b
           \<and> stored_index v2 vs' = Some c \<and> stored_index v3 vs' = Some d"
proof -
  obtain vs0 a where r0: "insert_vertex v0 vs = (vs0, a)" by (cases "insert_vertex v0 vs")
  obtain vs1 b where r1: "insert_vertex v1 vs0 = (vs1, b)" by (cases "insert_vertex v1 vs0")
  obtain vs2 c where r2: "insert_vertex v2 vs1 = (vs2, c)" by (cases "insert_vertex v2 vs1")
  obtain vs3 d where r3: "insert_vertex v3 vs2 = (vs3, d)" by (cases "insert_vertex v3 vs2")
  have "face_loop e obj mesh mi [l0, l1, l2, l3] vs [] = Inr (vs3, [a, b, c, d])"
    using assms r0 r1 r2 r3 by simp
  moreover have "stored_index v0 vs3 = Some a"
    using insert_vertex_keeps[OF r3
        insert_vertex_keeps[OF r2 insert_vertex_keeps[OF r1 insert_vertex_stored[OF r0]]]] .
  moreover have "stored_index v1 vs3 = Some b"
    using insert_vertex_keeps[OF r3 insert_vertex_keeps[OF r2 insert_vertex_stored[OF r1]]] .
  moreover have "stored_index v2 vs3 = Some c"
    using insert_vertex_keeps[OF r3 insert_vertex_stored[OF r2]] .
  moreover have "stored_index v3 vs3 = Some d"
    using insert_vertex_stored[OF r3] .
  ultimately show ?thesis by blast
qed

lemma winding_order_cases:
  assumes "material_index triangle = mi"
    and "loop_vertex e obj mesh mi l0 = Inr v0"
    and "loop_vertex e obj mesh mi l1 = Inr v1"
    and "loop_vertex e obj mesh mi l2 = Inr v2"
  shows "loops triangle = [l0, l1, l2] \<Longrightarrow>
           \<exists>vs' a b c. stored_index v0 vs' = Some a \<and> stored_index v1 vs' = Some b
             \<and> stored_index v2 vs' = Some c
             \<and> add_triangle e obj mesh mi triangle vs idx = Inr (vs', idx @ [b, c, a])
             \<and> triangles_loop e obj mesh mi (triangle # rest) vs idx
                 = triangles_loop e obj mesh mi rest vs' (idx @ [b, c, a])"
    and "loops triangle = [l0, l1, l2, l3] \<Longrightarrow> loop_vertex e obj mesh mi l3 = Inr v3 \<Longrightarrow>
           \<exists>vs' a b c d. stored_index v0 vs' = Some a \<and> stored_index v1 vs' = Some b
             \<and> stored_index v2 vs' = Some c \<and> stored_index v3 vs' = Some d
             \<and> add_triangle e obj mesh mi triangle vs idx
                 = Inr (vs', idx @ [b, c, a] @ [c, d, a])
             \<and> triangles_loop e obj mesh mi (triangle # rest) vs idx
                 = triangles_loop e obj mesh mi rest vs' (idx @ [b, c, a] @ [c, d, a])"
proof -
  assume l: "loops triangle = [l0, l1, l2]"
  obtain vs' a b c where f: "face_loop e obj mesh mi [l0, l1, l2] vs [] = Inr (vs', [a, b, c])"
    and s: "stored_index v0 vs' = Some a" "stored_index v1 vs' = Some b"
      "stored_index v2 vs' = Some c"
    using face_loop_three[OF assms(2-4)] by blast
  have t: "add_triangle e obj mesh mi triangle vs idx = Inr (vs', idx @ [b, c, a])"
    unfolding add_triangle_def l f by (simp add: extend_face_def)
  have "triangles_loop e obj mesh mi (triangle # rest) vs idx
          = triangles_loop e obj mesh mi rest vs' (idx @ [b, c, a])"
    using assms(1) t by simp
  then show "\<exists>vs' a b c. stored_index v0 vs' = Some a \<and> stored_index v1 vs' = Some b
             \<and> stored_index v2 vs' = Some c
             \<and> add_triangle e obj mesh mi triangle vs idx = Inr (vs', idx @ [b, c, a])
             \<and> triangles_loop e obj mesh mi (triangle # rest) vs idx
                 = triangles_loop e obj mesh mi rest vs' (idx @ [b, c, a])"
    using s t by blast
next
  assume l: "loops triangle = [l0, l1, l2, l3]" and v3: "loop_vertex e obj mesh mi l3 = Inr v3"
  obtain vs' a b c d
    where f: "face_loop e obj mesh mi [l0, l1, l2, l3] vs [] = Inr (vs', [a, b, c, d])"
    and s: "stored_index v0 vs' = Some a" "stored_index v1 vs' = Some b"
      "stored_index v2 vs' = Some c" "stored_index v3 vs' = Some d"
    using face_loop_four[OF assms(2-4) v3] by blast
  have t: "add_triangle e obj mesh mi triangle vs idx = Inr (vs', idx @ [b, c, a] @ [c, d, a])"
    unfolding add_triangle_def l f by (simp add: extend_face_def)
  have "triangles_loop e obj mesh mi (triangle # rest) vs idx
          = triangles_loop e obj mesh mi rest vs' (idx @ [b, c, a] @ [c, d, a])"
    using assms(1) t by simp
  then show "\<exists>vs' a b c d. stored_index v0 vs' = Some a \<and> stored_index v1 vs' = Some b
             \<and> stored_index v2 vs' = Some c \<and> stored_index v3 vs' = Some d
             \<and> add_triangle e obj mesh mi triangle vs idx
                 = Inr (vs', idx @ [b, c, a] @ [c, d, a])
             \<and> triangles_loop e obj mesh mi (triangle # rest) vs idx
                 = triangles_loop e obj mesh mi rest vs' (idx @ [b, c, a] @ [c, d, a])"
    using s t by blast
qed

lemma triangles_loop_other:
  "list_all (\<lambda>t. material_index t \<noteq> mi) ts \<Longrightarrow>
     triangles_loop e obj mesh mi ts vs idx = Inr (vs, idx)"
  by (induction ts) simp_all

lemma triangles_loop_skip:
  "list_all (\<lambda>t. material_index t \<noteq> mi) before \<Longrightarrow>
     triangles_loop e obj mesh mi (before @ ts) vs idx = triangles_loop e obj mesh mi ts vs idx"
  by (induction before) simp_all

lemma triangles_loop_single:
  assumes "material_index triangle = mi"
    and "add_triangle e obj mesh mi triangle vs idx = Inr (vs', idx')"
    and "list_all (\<lambda>t. material_index t \<noteq> mi) (before @ after)"
  shows "triangles_loop e obj mesh mi (before @ triangle # after) vs idx = Inr (vs', idx')"
proof -
  have b: "list_all (\<lambda>t. material_index t \<noteq> mi) before"
    and a: "list_all (\<lambda>t. material_index t \<noteq> mi) after"
    using assms(3) by simp_all
  have "triangles_loop e obj mesh mi (before @ triangle # after) vs idx
      = triangles_loop e obj mesh mi (triangle # after) vs idx"
    using triangles_loop_skip[OF b] .
  also have "\<dots> = triangles_loop e obj mesh mi after vs' idx'"
    using assms(1,2) by simp
  also have "\<dots> = Inr (vs', idx')" using triangles_loop_other[OF a] .
  finally show ?thesis .
qed

lemma extend_face_spec:
  assumes "length fi = 3 \<or> length fi = 4"
  shows "extend_face fi idx = Inr (idx @ spec_winding fi)"
proof -
  consider a b c where "fi = [a, b, c]" | a b c d where "fi = [a, b, c, d]"
    using assms by (auto simp: numeral_eq_Suc length_Suc_conv)
  then show ?thesis by cases (simp_all add: extend_face_def)
qed

lemma face_loop_general:
  assumes "list_all (\<lambda>l. \<not> isl (loop_vertex e obj mesh mi l)) ls"
  shows "\<exists>vs' fi. face_loop e obj mesh mi ls vs acc = Inr (vs', acc @ fi)
           \<and> list_all2 (index_of_loop e obj mesh mi vs') ls fi
           \<and> (\<forall>u j. stored_index u vs = Some j \<longrightarrow> stored_index u vs' = Some j)"
  using assms
proof (induction ls arbitrary: vs acc)
  case Nil
  then show ?case by simp
next
  case (Cons l ls)
  obtain v where v: "loop_vertex e obj mesh mi l = Inr v"
    using Cons.prems by (cases "loop_vertex e obj mesh mi l") simp_all
  obtain vs0 i where r: "insert_vertex v vs = (vs0, i)" by (cases "insert_vertex v vs")
  have rest: "list_all (\<lambda>l. \<not> isl (loop_vertex e obj mesh mi l)) ls"
    using Cons.prems by simp
  obtain vs' fi
    where f: "face_loop e obj mesh mi ls vs0 (acc @ [i]) = Inr (vs', (acc @ [i]) @ fi)"
      and a: "list_all2 (index_of_loop e obj mesh mi vs') ls fi"
      and k: "\<forall>u j. stored_index u vs0 = Some j \<longrightarrow> stored_index u vs' = Some j"
    using Cons.IH[OF rest, of vs0 "acc @ [i]"] by blast
  have 1: "face_loop e obj mesh mi (l # ls) vs acc = Inr (vs', acc @ (i # fi))"
    using v r f by simp
  have "index_of_loop e obj mesh mi vs' l i"
    using v k insert_vertex_stored[OF r] by (simp add: index_of_loop_def)
  then have 2: "list_all2 (index_of_loop e obj mesh mi vs') (l # ls) (i # fi)"
    using a by simp
  have 3: "\<forall>u j. stored_index u vs = Some j \<longrightarrow> stored_index u vs' = Some j"
    using k insert_vertex_keeps[OF r] by blast
  show ?case using 1 2 3 by blast
qed

lemma add_triangle_general:
  assumes "face_ok e obj mesh mi t"
  shows "\<exists>vs' fi. add_triangle e obj mesh mi t vs idx = Inr (vs', idx @ spec_winding fi)
           \<and> list_all2 (index_of_loop e obj mesh mi vs') (loops t) fi
           \<and> (\<forall>u j. stored_index u vs = Some j \<longrightarrow> stored_index u vs' = Some j)"
proof -
  have n: "length (loops t) = 3 \<or> length (loops t) = 4"
    and ok: "list_all (\<lambda>l. \<not> isl (loop_vertex e obj mesh mi l)) (loops t)"
    using assms by (simp_all add: face_ok_def)
  obtain vs' fi where f: "face_loop e obj mesh mi (loops t) vs [] = Inr (vs', [] @ fi)"
    and a: "list_all2 (index_of_loop e obj mesh mi vs') (loops t) fi"
    and k: "\<forall>u j. stored_index u vs = Some j \<longrightarrow> stored_index u vs' = Some j"
    using face_loop_general[OF ok, of vs "[]"] by blast
  have "length fi = 3 \<or> length fi = 4" using n list_all2_lengthD[OF a] by simp
  then have "extend_face fi idx = Inr (idx @ spec_winding fi)" by (rule extend_face_spec)
  then have "add_triangle e obj mesh mi t vs idx = Inr (vs', idx @ spec_winding fi)"
    using f by (simp add: add_triangle_def)
  then show ?thesis using a k by blast
qed

lemma triangles_loop_general:
  assumes "list_all (\<lambda>t. material_index t = mi \<longrightarrow> face_ok e obj mesh mi t) ts"
  shows "\<exists>vs' faces.
           triangles_loop e obj mesh mi ts vs idx
             = Inr (vs', idx @ concat (map spec_winding faces))
           \<and> list_all2 (\<lambda>t fi. list_all2 (index_of_loop e obj mesh mi vs') (loops t) fi)
               (filter (\<lambda>t. material_index t = mi) ts) faces
           \<and> (\<forall>u j. stored_index u vs = Some j \<longrightarrow> stored_index u vs' = Some j)"
  using assms
proof (induction ts arbitrary: vs idx)
  case Nil
  have "triangles_loop e obj mesh mi [] vs idx = Inr (vs, idx @ concat (map spec_winding []))"
    by simp
  then show ?case by fastforce
next
  case (Cons t ts)
  have rest: "list_all (\<lambda>t. material_index t = mi \<longrightarrow> face_ok e obj mesh mi t) ts"
    using Cons.prems by simp
  show ?case
  proof (cases "material_index t = mi")
    case False
    then have "triangles_loop e obj mesh mi (t # ts) vs idx
        = triangles_loop e obj mesh mi ts vs idx" by auto
    moreover have "filter (\<lambda>t. material_index t = mi) (t # ts)
        = filter (\<lambda>t. material_index t = mi) ts" using False by simp
    ultimately show ?thesis using Cons.IH[OF rest, of vs idx] by simp
  next
    case True
    then have ok: "face_ok e obj mesh mi t" using Cons.prems by simp
    obtain vs1 fi
      where t1: "add_triangle e obj mesh mi t vs idx = Inr (vs1, idx @ spec_winding fi)"
        and a1: "list_all2 (index_of_loop e obj mesh mi vs1) (loops t) fi"
        and k1: "\<forall>u j. stored_index u vs = Some j \<longrightarrow> stored_index u vs1 = Some j"
      using add_triangle_general[OF ok, of vs idx] by blast
    obtain vs' faces
      where l: "triangles_loop e obj mesh mi ts vs1 (idx @ spec_winding fi)
                  = Inr (vs', (idx @ spec_winding fi) @ concat (map spec_winding faces))"
        and a: "list_all2 (\<lambda>t fi. list_all2 (index_of_loop e obj mesh mi vs') (loops t) fi)
                  (filter (\<lambda>t. material_index t = mi) ts) faces"
        and k: "\<forall>u j. stored_index u vs1 = Some j \<longrightarrow> stored_index u vs' = Some j"
      using Cons.IH[OF rest, of vs1 "idx @ spec_winding fi"] by blast
    have 1: "triangles_loop e obj mesh mi (t # ts) vs idx
        = Inr (vs', idx @ concat (map spec_winding (fi # faces)))"
      using True t1 l by simp
    have "index_of_loop e obj mesh mi vs1 l i \<Longrightarrow> index_of_loop e obj mesh mi vs' l i" for l i
      using k by (auto simp: index_of_loop_def split: sum.splits)
    then have "list_all2 (index_of_loop e obj mesh mi vs') (loops t) fi"
      using list_all2_mono[OF a1] by blast
    then have 2: "list_all2 (\<lambda>t fi. list_all2 (index_of_loop e obj mesh mi vs') (loops t) fi)
        (filter (\<lambda>t. material_index t = mi) (t # ts)) (fi # faces)"
      using True a by simp
    have 3: "\<forall>u j. stored_index u vs = Some j \<longrightarrow> stored_index u vs' = Some j"
      using k1 k by blast
    show ?thesis using 1 2 3 by blast
  qed
qed

text \<open>
  C3. Let a triangle of the material being grouped have the loops \<open>l0, l1, l2\<close>, with
  vertices \<open>v0, v1, v2\<close>, and let \<open>a, b, c\<close> be the indices the vertex dict holds for
  them after the face (the deduplicated loop indices A, B, C in input order). The loop
  over the triangles appends \<open>b, c, a\<close> to the index list: that is the result of the
  loop body, of the loop on this triangle alone, and of the loop on any triangle list
  in which the other triangles belong to other materials; and the loop on a longer
  list goes on from the index list so extended. For four loops with indices
  \<open>a, b, c, d\<close> the same holds with \<open>b, c, a\<close> followed by \<open>c, d, a\<close>.
  On any triangle list whose triangles of the material can be grouped, the loop
  returns, and what it appends is, for each triangle of the material in turn, the
  winding \<open>spec_winding\<close> of the indices the returned dict holds for the vertices of
  the triangle's loops.
\<close>

theorem winding_order:
  assumes "material_index triangle = mi"
    and "loop_vertex e obj mesh mi l0 = Inr v0"
    and "loop_vertex e obj mesh mi l1 = Inr v1"
    and "loop_vertex e obj mesh mi l2 = Inr v2"
  shows "(loops triangle = [l0, l1, l2] \<longrightarrow>
           (\<exists>vs' a b c. stored_index v0 vs' = Some a \<and> stored_index v1 vs' = Some b
             \<and> stored_index v2 vs' = Some c
             \<and> add_triangle e obj mesh mi triangle vs idx = Inr (vs', idx @ [b, c, a])
             \<and> triangles_loop e obj mesh mi (triangle # rest) vs idx
                 = triangles_loop e obj mesh mi rest vs' (idx @ [b, c, a])
             \<and> triangles_loop e obj mesh mi [triangle] vs idx = Inr (vs', idx @ [b, c, a])
             \<and> (list_all (\<lambda>t. material_index t \<noteq> mi) (before @ after) \<longrightarrow>
                  triangles_loop e obj mesh mi (before @ triangle # after) vs idx
                    = Inr (vs', idx @ [b, c, a]))))
    \<and> (loops triangle = [l0, l1, l2, l3] \<and> loop_vertex e obj mesh mi l3 = Inr v3 \<longrightarrow>
           (\<exists>vs' a b c d. stored_index v0 vs' = Some a \<and> stored_index v1 vs' = Some b
             \<and> stored_index v2 vs' = Some c \<and> stored_index v3 vs' = Some d
             \<and> add_triangle e obj mesh mi triangle vs idx
                 = Inr (vs', idx @ [b, c, a] @ [c, d, a])
             \<and> triangles_loop e obj mesh mi (triangle # rest) vs idx
                 = triangles_loop e obj mesh mi rest vs' (idx @ [b, c, a] @ [c, d, a])
             \<and> triangles_loop e obj mesh mi [triangle] vs idx
                 = Inr (vs', idx @ [b, c, a] @ [c, d, a])
             \<and> (list_all (\<lambda>t. material_index t \<noteq> mi) (before @ after) \<longrightarrow>
                  triangles_loop e obj mesh mi (before @ triangle # after) vs idx
                    = Inr (vs', idx @ [b, c, a] @ [c, d, a]))))
    \<and> (list_all (\<lambda>t. material_index t = mi \<longrightarrow> face_ok e obj mesh mi t) triangles \<longrightarrow>
           (\<exists>vs' faces.
              triangles_loop e obj mesh mi triangles vs idx
                = Inr (vs', idx @ concat (map spec_winding faces))
              \<and> list_all2 (\<lambda>t fi. list_all2 (index_of_loop e obj mesh mi vs') (loops t) fi)
                  (filter (\<lambda>t. material_index t = mi) triangles) faces))"
proof (intro conjI impI)
  assume l: "loops triangle = [l0, l1, l2]"
  obtain vs' a b c where s: "stored_index v0 vs' = Some a" "stored_index v1 vs' = Some b"
      "stored_index v2 vs' = Some c"
    and t: "add_triangle e obj mesh mi triangle vs idx = Inr (vs', idx @ [b, c, a])"
    and r: "triangles_loop e obj mesh mi (triangle # rest) vs idx
                 = triangles_loop e obj mesh mi rest vs' (idx @ [b, c, a])"
    using winding_order_cases(1)[OF assms l] by blast
  have one: "triangles_loop e obj mesh mi [triangle] vs idx = Inr (vs', idx @ [b, c, a])"
    using triangles_loop_single[OF assms(1) t, of "[]" "[]"] by simp
  have more: "list_all (\<lambda>t. material_index t \<noteq> mi) (before @ after) \<longrightarrow>
      triangles_loop e obj mesh mi (before @ triangle # after) vs idx
        = Inr (vs', idx @ [b, c, a])"
    using triangles_loop_single[OF assms(1) t] by blast
  show "\<exists>vs' a b c. stored_index v0 vs' = Some a \<and> stored_index v1 vs' = Some b
             \<and> stored_index v2 vs' = Some c
             \<and> add_triangle e obj mesh mi triangle vs idx = Inr (vs', idx @ [b, c, a])
             \<and> triangles_loop e obj mesh mi (triangle # rest) vs idx
                 = triangles_loop e obj mesh mi rest vs' (idx @ [b, c, a])
             \<and> triangles_loop e obj mesh mi [triangle] vs idx = Inr (vs', idx @ [b, c, a])
             \<and> (list_all (\<lambda>t. material_index t \<noteq> mi) (before @ after) \<longrightarrow>
                  triangles_loop e obj mesh mi (before @ triangle # after) vs idx
                    = Inr (vs', idx @ [b, c, a]))"
    using s t r one more by blast
next
  assume "loops triangle = [l0, l1, l2, l3] \<and> loop_vertex e obj mesh mi l3 = Inr v3"
  then have l: "loops triangle = [l0, l1, l2, l3]"
    and v3: "loop_vertex e obj mesh mi l3 = Inr v3" by simp_all
  obtain vs' a b c d where s: "stored_index v0 vs' = Some a" "stored_index v1 vs' = Some b"
      "stored_index v2 vs' = Some c" "stored_index v3 vs' = Some d"
    and t: "add_triangle e obj mesh mi triangle vs idx
              = Inr (vs', idx @ [b, c, a] @ [c, d, a])"
    and r: "triangles_loop e obj mesh mi (triangle # rest) vs idx
                 = triangles_loop e obj mesh mi rest vs' (idx @ [b, c, a] @ [c, d, a])"
    using winding_order_cases(2)[OF assms l v3] by blast
  have one: "triangles_loop e obj mesh mi [triangle] vs idx
      = Inr (vs', idx @ [b, c, a] @ [c, d, a])"
    using triangles_loop_single[OF assms(1) t, of "[]" "[]"] by simp
  have more: "list_all (\<lambda>t. material_index t \<noteq> mi) (before @ after) \<longrightarrow>
      triangles_loop e obj mesh mi (before @ triangle # after) vs idx
        = Inr (vs', idx @ [b, c, a] @ [c, d, a])"
    using triangles_loop_single[OF assms(1) t] by blast
  show "\<exists>vs' a b c d. stored_index v0 vs' = Some a \<and> stored_index v1 vs' = Some b
             \<and> stored_index v2 vs' = Some c \<and> stored_index v3 vs' = Some d
             \<and> add_triangle e obj mesh mi triangle vs idx
                 = Inr (vs', idx @ [b, c, a] @ [c, d, a])
             \<and> triangles_loop e obj mesh mi (triangle # rest) vs idx
                 = triangles_loop e obj mesh mi rest vs' (idx @ [b, c, a] @ [c, d, a])
             \<and> triangles_loop e obj mesh mi [triangle] vs idx
                 = Inr (vs', idx @ [b, c, a] @ [c, d, a])
             \<and> (list_all (\<lambda>t. material_index t \<noteq> mi) (before @ after) \<longrightarrow>
                  triangles_loop e obj mesh mi (before @ triangle # after) vs idx
                    = Inr (vs', idx @ [b, c, a] @ [c, d, a]))"
    using s t r one more by blast
next
  assume "list_all (\<lambda>t. material_index t = mi \<longrightarrow> face_ok e obj mesh mi t) triangles"
  then show "\<exists>vs' faces.
              triangles_loop e obj mesh mi triangles vs idx
                = Inr (vs', idx @ concat (map spec_winding faces))
              \<and> list_all2 (\<lambda>t fi. list_all2 (index_of_loop e obj mesh mi vs') (loops t) fi)
                  (filter (\<lambda>t. material_index t = mi) triangles) faces"
    using triangles_loop_general[of mi e obj mesh triangles vs idx] by blast
qed

lemma loop_vertex_one_triangle:
  "loop_vertex env0 tri_obj one_triangle 0 0 = Inr (built (0, 0, 0) (0, 0))"
  "loop_vertex env0 tri_obj one_triangle 0 1 = Inr (built (1, 0, 0) (1, 0))"
  "loop_vertex env0 tri_obj one_triangle 0 2 = Inr (built (0, 1, 0) (0, 1))"
  by (simp_all add: loop_vertex_def env0_def tri_obj_def mesh_object_def one_triangle_def
      loop_at_def built_def c0_def c1_def c2_def Let_def)

lemma loop_vertex_one_quad:
  "loop_vertex env0 quad_obj one_quad 0 0 = Inr (built (0, 0, 0) (0, 0))"
  "loop_vertex env0 quad_obj one_quad 0 1 = Inr (built (1, 0, 0) (1, 0))"
  "loop_vertex env0 quad_obj one_quad 0 2 = Inr (built (1, 1, 0) (1, 1))"
  "loop_vertex env0 quad_obj one_quad 0 3 = Inr (built (0, 1, 0) (0, 1))"
  by (simp_all add: loop_vertex_def env0_def quad_obj_def mesh_object_def one_quad_def
      loop_at_def built_def c0_def c1_def c2_def Let_def)

lemma loop_vertex_Suc0:
  "loop_vertex env0 tri_obj one_triangle 0 (Suc 0) = Inr (built (1, 0, 0) (1, 0))"
  "loop_vertex env0 quad_obj one_quad 0 (Suc 0) = Inr (built (1, 0, 0) (1, 0))"
  using loop_vertex_one_triangle(2) loop_vertex_one_quad(2) by simp_all

lemma add_triangle_one_triangle:
  "add_triangle env0 tri_obj one_triangle 0 \<lparr>loops = [0, 1, 2], material_index = 0\<rparr> [] []
     = Inr ([(built (0, 0, 0) (0, 0), 0), (built (1, 0, 0) (1, 0), 1),
             (built (0, 1, 0) (0, 1), 2)], [1, 2, 0])"
  by (simp add: add_triangle_def loop_vertex_one_triangle loop_vertex_Suc0 insert_vertex_def lookup_vertex_def
      UvVertex_eq_def built_def c0_def c1_def c2_def extend_face_def)

lemma add_triangle_one_quad:
  "add_triangle env0 quad_obj one_quad 0 \<lparr>loops = [0, 1, 2, 3], material_index = 0\<rparr> [] []
     = Inr ([(built (0, 0, 0) (0, 0), 0), (built (1, 0, 0) (1, 0), 1),
             (built (1, 1, 0) (1, 1), 2), (built (0, 1, 0) (0, 1), 3)],
            [1, 2, 0, 2, 3, 0])"
  by (simp add: add_triangle_def loop_vertex_one_quad loop_vertex_Suc0 insert_vertex_def lookup_vertex_def
      UvVertex_eq_def built_def c0_def c1_def c2_def extend_face_def)

lemma triangles_loop_one_triangle:
  "triangles_loop env0 tri_obj one_triangle 0 (mesh_triangles one_triangle) [] []
     = Inr ([(built (0, 0, 0) (0, 0), 0), (built (1, 0, 0) (1, 0), 1),
             (built (0, 1, 0) (0, 1), 2)], [1, 2, 0])"
proof -
  have "mesh_triangles one_triangle = [\<lparr>loops = [0, 1, 2], material_index = 0\<rparr>]"
    by (simp add: one_triangle_def)
  then show ?thesis using add_triangle_one_triangle by simp
qed

lemma triangles_loop_one_quad:
  "triangles_loop env0 quad_obj one_quad 0 (mesh_triangles one_quad) [] []
     = Inr ([(built (0, 0, 0) (0, 0), 0), (built (1, 0, 0) (1, 0), 1),
             (built (1, 1, 0) (1, 1), 2), (built (0, 1, 0) (0, 1), 3)],
            [1, 2, 0, 2, 3, 0])"
proof -
  have "mesh_triangles one_quad = [\<lparr>loops = [0, 1, 2, 3], material_index = 0\<rparr>]"
    by (simp add: one_quad_def)
  then show ?thesis using add_triangle_one_quad by simp
qed

lemma sorted_dicts:
  "vertex_buffer [(built (0, 0, 0) (0, 0), 0), (built (1, 0, 0) (1, 0), Suc 0),
                  (built (0, 1, 0) (0, 1), 2)]
     = [built (0, 0, 0) (0, 0), built (1, 0, 0) (1, 0), built (0, 1, 0) (0, 1)]"
  "vertex_buffer [(built (0, 0, 0) (0, 0), 0), (built (1, 0, 0) (1, 0), Suc 0),
                  (built (1, 1, 0) (1, 1), 2), (built (0, 1, 0) (0, 1), 3)]
     = [built (0, 0, 0) (0, 0), built (1, 0, 0) (1, 0), built (1, 1, 0) (1, 1),
        built (0, 1, 0) (0, 1)]"
proof -
  have "sort_key snd [(built (0, 0, 0) (0, 0), 0::nat), (built (1, 0, 0) (1, 0), Suc 0),
                  (built (0, 1, 0) (0, 1), 2)]
      = [(built (0, 0, 0) (0, 0), 0), (built (1, 0, 0) (1, 0), Suc 0),
                  (built (0, 1, 0) (0, 1), 2)]"
    by (rule sort_key_id_if_sorted) simp
  then show "vertex_buffer [(built (0, 0, 0) (0, 0), 0), (built (1, 0, 0) (1, 0), Suc 0),
                  (built (0, 1, 0) (0, 1), 2)]
     = [built (0, 0, 0) (0, 0), built (1, 0, 0) (1, 0), built (0, 1, 0) (0, 1)]"
    by (simp add: vertex_buffer_def)
  have "sort_key snd [(built (0, 0, 0) (0, 0), 0::nat), (built (1, 0, 0) (1, 0), Suc 0),
                  (built (1, 1, 0) (1, 1), 2), (built (0, 1, 0) (0, 1), 3)]
      = [(built (0, 0, 0) (0, 0), 0), (built (1, 0, 0) (1, 0), Suc 0),
                  (built (1, 1, 0) (1, 1), 2), (built (0, 1, 0) (0, 1), 3)]"
    by (rule sort_key_id_if_sorted) simp
  then show "vertex_buffer [(built (0, 0, 0) (0, 0), 0), (built (1, 0, 0) (1, 0), Suc 0),
                  (built (1, 1, 0) (1, 1), 2), (built (0, 1, 0) (0, 1), 3)]
     = [built (0, 0, 0) (0, 0), built (1, 0, 0) (1, 0), built (1, 1, 0) (1, 1),
        built (0, 1, 0) (0, 1)]"
    by (simp add: vertex_buffer_def)
qed

lemma grouping_one_triangle:
  "split_object_by_materials env0 tri_obj
     = Inr [\<lparr>material_id = Some 7,
             vertices = [built (0, 0, 0) (0, 0), built (1, 0, 0) (1, 0), built (0, 1, 0) (0, 1)],
             indices = [1, 2, 0]\<rparr>]"
proof -
  have m: "materials one_triangle = [Some paint]"
    and u: "set_iter env0 (map material_index (mesh_triangles one_triangle)) = [0]"
    and p: "material_positions env0 (mat_name paint) = Some (Some 7)"
    and n: "\<not> startswith (mat_name paint) ''__''"
    and o: "to_mesh tri_obj = one_triangle"
    by (simp_all add: one_triangle_def env0_def tri_obj_def mesh_object_def paint_def
        startswith_def)
  show ?thesis
    by (simp add: split_object_by_materials_def o m u triangles_loop_one_triangle p n
        sorted_dicts)
qed

lemma grouping_one_quad:
  "split_object_by_materials env0 quad_obj
     = Inr [\<lparr>material_id = Some 7,
             vertices = [built (0, 0, 0) (0, 0), built (1, 0, 0) (1, 0), built (1, 1, 0) (1, 1),
                         built (0, 1, 0) (0, 1)],
             indices = [1, 2, 0, 2, 3, 0]\<rparr>]"
proof -
  have m: "materials one_quad = [Some paint]"
    and u: "set_iter env0 (map material_index (mesh_triangles one_quad)) = [0]"
    and p: "material_positions env0 (mat_name paint) = Some (Some 7)"
    and n: "\<not> startswith (mat_name paint) ''__''"
    and o: "to_mesh quad_obj = one_quad"
    by (simp_all add: one_quad_def env0_def quad_obj_def mesh_object_def paint_def
        startswith_def)
  show ?thesis
    by (simp add: split_object_by_materials_def o m u triangles_loop_one_quad p n
        sorted_dicts)
qed

lemma loop_vertex_fan:
  "loop_vertex env0 fan_obj fan 0 0 = Inr (built (0, 0, 0) (0, 0))"
  "loop_vertex env0 fan_obj fan 0 1 = Inr (built (1, 0, 0) (1, 0))"
  "loop_vertex env0 fan_obj fan 0 2 = Inr (built (1, 1, 0) (1, 1))"
  "loop_vertex env0 fan_obj fan 0 6 = Inr (built (0, 0, 0) (0, 0))"
  "loop_vertex env0 fan_obj fan 0 7 = Inr (built (1, 1, 0) (1, 1))"
  "loop_vertex env0 fan_obj fan 0 8 = Inr (built (0, 1, 0) (0, 1))"
  "loop_vertex env0 fan_obj fan 0 (Suc 0) = Inr (built (1, 0, 0) (1, 0))"
  by (simp_all add: loop_vertex_def env0_def fan_obj_def mesh_object_def fan_def
      loop_at_def built_def c0_def c1_def c2_def Let_def)

lemma fan_triangles:
  "mesh_triangles fan = [\<lparr>loops = [0, 1, 2], material_index = 0\<rparr>,
                         \<lparr>loops = [3, 4, 5], material_index = 1\<rparr>,
                         \<lparr>loops = [6, 7, 8], material_index = 0\<rparr>]"
  by (simp add: fan_def)

lemma triangles_loop_fan:
  "triangles_loop env0 fan_obj fan 0 (mesh_triangles fan) [] []
     = Inr ([(built (0, 0, 0) (0, 0), 0), (built (1, 0, 0) (1, 0), 1),
             (built (1, 1, 0) (1, 1), 2), (built (0, 1, 0) (0, 1), 3)],
            [1, 2, 0, 2, 3, 0])"
  by (simp add: fan_triangles add_triangle_def loop_vertex_fan insert_vertex_def
      lookup_vertex_def UvVertex_eq_def built_def c0_def c1_def c2_def extend_face_def)

lemma fan_faces_ok:
  "list_all (\<lambda>t. material_index t = 0 \<longrightarrow> face_ok env0 fan_obj fan 0 t) (mesh_triangles fan)"
  by (simp add: fan_triangles face_ok_def loop_vertex_fan)

text \<open>
  Witness for C3: a triangle and a quad of three and four distinct vertices, which get
  the indices 0, 1, 2 (and 3). The loop over the triangles, and the grouping step as a
  whole, give the index lists 1, 2, 0 and 1, 2, 0, 2, 3, 0. In the mesh \<open>fan\<close> the two
  triangles of material 0 share two vertices: their loop indices are 0, 1, 2 and
  0, 2, 3, and the loop for material 0 gives 1, 2, 0, 2, 3, 0, passing over the
  triangle of material 1.
\<close>

theorem winding_order_witness:
  "triangles_loop env0 fan_obj fan 0 (mesh_triangles fan) [] []
     = Inr ([(built (0, 0, 0) (0, 0), 0), (built (1, 0, 0) (1, 0), 1),
             (built (1, 1, 0) (1, 1), 2), (built (0, 1, 0) (0, 1), 3)],
            [1, 2, 0, 2, 3, 0]) \<and>
   (\<exists>vs' faces.
      triangles_loop env0 fan_obj fan 0 (mesh_triangles fan) [] []
        = Inr (vs', [] @ concat (map spec_winding faces))
      \<and> list_all2 (\<lambda>t fi. list_all2 (index_of_loop env0 fan_obj fan 0 vs') (loops t) fi)
          (filter (\<lambda>t. material_index t = 0) (mesh_triangles fan)) faces) \<and>
   triangles_loop env0 tri_obj one_triangle 0 (mesh_triangles one_triangle) [] []
     = Inr ([(built (0, 0, 0) (0, 0), 0), (built (1, 0, 0) (1, 0), 1),
             (built (0, 1, 0) (0, 1), 2)], [1, 2, 0]) \<and>
   triangles_loop env0 quad_obj one_quad 0 (mesh_triangles one_quad) [] []
     = Inr ([(built (0, 0, 0) (0, 0), 0), (built (1, 0, 0) (1, 0), 1),
             (built (1, 1, 0) (1, 1), 2), (built (0, 1, 0) (0, 1), 3)],
            [1, 2, 0, 2, 3, 0]) \<and>
   split_object_by_materials env0 tri_obj
     = Inr [\<lparr>material_id = Some 7,
             vertices = [built (0, 0, 0) (0, 0), built (1, 0, 0) (1, 0), built (0, 1, 0) (0, 1)],
             indices = [1, 2, 0]\<rparr>] \<and>
   split_object_by_materials env0 quad_obj
     = Inr [\<lparr>material_id = Some 7,
             vertices = [built (0, 0, 0) (0, 0), built (1, 0, 0) (1, 0), built (1, 1, 0) (1, 1),
                         built (0, 1, 0) (0, 1)],
             indices = [1, 2, 0, 2, 3, 0]\<rparr>] \<and>
   add_triangle env0 tri_obj one_triangle 0 \<lparr>loops = [0, 1, 2], material_index = 0\<rparr> [] []
     = Inr ([(built (0, 0, 0) (0, 0), 0), (built (1, 0, 0) (1, 0), 1),
             (built (0, 1, 0) (0, 1), 2)], [] @ [1, 2, 0]) \<and>
   add_triangle env0 quad_obj one_quad 0 \<lparr>loops = [0, 1, 2, 3], material_index = 0\<rparr> [] []
     = Inr ([(built (0, 0, 0) (0, 0), 0), (built (1, 0, 0) (1, 0), 1),
             (built (1, 1, 0) (1, 1), 2), (built (0, 1, 0) (0, 1), 3)],
            [] @ [1, 2, 0] @ [2, 3, 0]) \<and>
   (\<exists>vs' a b c. stored_index (built (0, 0, 0) (0, 0)) vs' = Some a
      \<and> stored_index (built (1, 0, 0) (1, 0)) vs' = Some b
      \<and> stored_index (built (0, 1, 0) (0, 1)) vs' = Some c
      \<and> add_triangle env0 tri_obj one_triangle 0 \<lparr>loops = [0, 1, 2], material_index = 0\<rparr> [] []
           = Inr (vs', [] @ [b, c, a])
      \<and> triangles_loop env0 tri_obj one_triangle 0 [\<lparr>loops = [0, 1, 2], material_index = 0\<rparr>] [] []
           = Inr (vs', [] @ [b, c, a])) \<and>
   (\<exists>vs' a b c d. stored_index (built (0, 0, 0) (0, 0)) vs' = Some a
      \<and> stored_index (built (1, 0, 0) (1, 0)) vs' = Some b
      \<and> stored_index (built (1, 1, 0) (1, 1)) vs' = Some c
      \<and> stored_index (built (0, 1, 0) (0, 1)) vs' = Some d
      \<and> add_triangle env0 quad_obj one_quad 0 \<lparr>loops = [0, 1, 2, 3], material_index = 0\<rparr> [] []
           = Inr (vs', [] @ [b, c, a] @ [c, d, a])
      \<and> triangles_loop env0 quad_obj one_quad 0 [\<lparr>loops = [0, 1, 2, 3], material_index = 0\<rparr>] [] []
           = Inr (vs', [] @ [b, c, a] @ [c, d, a]))"
proof -
  have m3: "material_index \<lparr>loops = [0, 1, 2], material_index = 0\<rparr> = (0::nat)" by simp
  have m4: "material_index \<lparr>loops = [0, 1, 2, 3], material_index = 0\<rparr> = (0::nat)" by simp
  have l3: "loops \<lparr>loops = [0, 1, 2], material_index = 0\<rparr> = [0, 1, 2]" by simp
  have l4: "loops \<lparr>loops = [0, 1, 2, 3], material_index = 0\<rparr> = [0, 1, 2, 3]" by simp
  have t: "\<exists>vs' a b c. stored_index (built (0, 0, 0) (0, 0)) vs' = Some a
      \<and> stored_index (built (1, 0, 0) (1, 0)) vs' = Some b
      \<and> stored_index (built (0, 1, 0) (0, 1)) vs' = Some c
      \<and> add_triangle env0 tri_obj one_triangle 0 \<lparr>loops = [0, 1, 2], material_index = 0\<rparr> [] []
           = Inr (vs', [] @ [b, c, a])
      \<and> triangles_loop env0 tri_obj one_triangle 0 [\<lparr>loops = [0, 1, 2], material_index = 0\<rparr>] [] []
           = Inr (vs', [] @ [b, c, a])"
    using winding_order[OF m3 loop_vertex_one_triangle, where vs = "[]" and idx = "[]"
        and rest = "[]"] l3 by blast
  have q: "\<exists>vs' a b c d. stored_index (built (0, 0, 0) (0, 0)) vs' = Some a
      \<and> stored_index (built (1, 0, 0) (1, 0)) vs' = Some b
      \<and> stored_index (built (1, 1, 0) (1, 1)) vs' = Some c
      \<and> stored_index (built (0, 1, 0) (0, 1)) vs' = Some d
      \<and> add_triangle env0 quad_obj one_quad 0 \<lparr>loops = [0, 1, 2, 3], material_index = 0\<rparr> [] []
           = Inr (vs', [] @ [b, c, a] @ [c, d, a])
      \<and> triangles_loop env0 quad_obj one_quad 0 [\<lparr>loops = [0, 1, 2, 3], material_index = 0\<rparr>] [] []
           = Inr (vs', [] @ [b, c, a] @ [c, d, a])"
    using winding_order[OF m4 loop_vertex_one_quad(1-3), where vs = "[]" and idx = "[]"
        and rest = "[]"] l4 loop_vertex_one_quad(4) by blast
  have c: "add_triangle env0 tri_obj one_triangle 0 \<lparr>loops = [0, 1, 2], material_index = 0\<rparr> [] []
     = Inr ([(built (0, 0, 0) (0, 0), 0), (built (1, 0, 0) (1, 0), 1),
             (built (0, 1, 0) (0, 1), 2)], [] @ [1, 2, 0])"
    "add_triangle env0 quad_obj one_quad 0 \<lparr>loops = [0, 1, 2, 3], material_index = 0\<rparr> [] []
     = Inr ([(built (0, 0, 0) (0, 0), 0), (built (1, 0, 0) (1, 0), 1),
             (built (1, 1, 0) (1, 1), 2), (built (0, 1, 0) (0, 1), 3)],
            [] @ [1, 2, 0] @ [2, 3, 0])"
    using add_triangle_one_triangle add_triangle_one_quad by simp_all
  have g: "\<exists>vs' faces.
      triangles_loop env0 fan_obj fan 0 (mesh_triangles fan) [] []
        = Inr (vs', [] @ concat (map spec_winding faces))
      \<and> list_all2 (\<lambda>t fi. list_all2 (index_of_loop env0 fan_obj fan 0 vs') (loops t) fi)
          (filter (\<lambda>t. material_index t = 0) (mesh_triangles fan)) faces"
    using winding_order[OF m3 loop_vertex_fan(1-3), where vs = "[]" and idx = "[]"
        and triangles = "mesh_triangles fan"] fan_faces_ok by blast
  show ?thesis
    using triangles_loop_fan g t q c triangles_loop_one_triangle triangles_loop_one_quad
      grouping_one_triangle grouping_one_quad
    by (intro conjI) assumption+
qed

section \<open>Two inputs on which the writer departs from its specification\<close>

lemma root_node_written:
  "write_base_node e objects None ''BlenderFile'' empty_writer
     = \<lparr>out = root_tokens (count_root_children objects), warnings = []\<rparr>"
  by (simp add: write_base_node_def write_base_node_data_def write_matrix_def write_bool_def
      write_uint_def write_string_def write_node_class_def emit_def empty_writer_def
      root_tokens_def)

lemma loop_vertex_rubber:
  "loop_vertex env0 rubber_obj rubber_triangle 0 0 = Inr (built (0, 0, 0) (0, 0))"
  "loop_vertex env0 rubber_obj rubber_triangle 0 (Suc 0) = Inr (built (1, 0, 0) (1, 0))"
  "loop_vertex env0 rubber_obj rubber_triangle 0 2 = Inr (built (0, 1, 0) (0, 1))"
  by (simp_all add: loop_vertex_def env0_def rubber_obj_def mesh_object_def one_triangle_def
      rubber_triangle_def loop_at_def built_def c0_def c1_def c2_def Let_def)

lemma split_rubber: "split_object_by_materials env0 rubber_obj = Inl KeyError"
proof -
  have t: "triangles_loop env0 rubber_obj rubber_triangle 0 (mesh_triangles rubber_triangle) [] []
      = Inr ([(built (0, 0, 0) (0, 0), 0), (built (1, 0, 0) (1, 0), 1),
              (built (0, 1, 0) (0, 1), 2)], [1, 2, 0])"
    by (simp add: rubber_triangle_def one_triangle_def add_triangle_def loop_vertex_rubber
        loop_vertex_rubber[unfolded rubber_triangle_def one_triangle_def, simplified]
        insert_vertex_def lookup_vertex_def
        UvVertex_eq_def built_def c0_def c1_def c2_def extend_face_def)
  have m: "materials rubber_triangle = [Some \<lparr>mat_name = ''rubber'', texture_slot = None\<rparr>]"
    and u: "set_iter env0 (map material_index (mesh_triangles rubber_triangle)) = [0]"
    and p: "material_positions env0 ''rubber'' = None"
    and o: "to_mesh rubber_obj = rubber_triangle"
    by (simp_all add: rubber_triangle_def one_triangle_def env0_def rubber_obj_def
        mesh_object_def)
  show ?thesis
    by (simp add: split_object_by_materials_def o m u t p startswith_def)
qed

text \<open>
  C9, on the code. The object \<open>tyre\<close> uses the material \<open>rubber\<close>, which is not a key of
  \<^verbatim>\<open>material_positions\<close>. The subscript at line 346 raises KeyError, which nothing
  catches: the export ends after the root node, no Mesh record is written and no
  warning is collected. The fallback of \<^verbatim>\<open>_write_mesh\<close> (id 0 and a warning) is taken
  only for a mesh whose \<open>material_id\<close> is already \<^verbatim>\<open>None\<close>.
\<close>

theorem unknown_material_raises:
  "material_positions env0 ''rubber'' = None
   \<and> split_object_by_materials env0 rubber_obj = Inl KeyError
   \<and> NodeWriter_write env0 [rubber_obj] empty_writer
       = (Some KeyError, \<lparr>out = root_tokens 1, warnings = []\<rparr>)
   \<and> write_mesh_material rubber_obj \<lparr>material_id = None, vertices = [], indices = []\<rparr> empty_writer
       = \<lparr>out = [UInt 0], warnings = [''No material to mesh '' @ quoted ''tyre'' @ '' assigned'']\<rparr>"
proof -
  have a: "parent rubber_obj = None" "visible_get rubber_obj" "name rubber_obj = ''tyre''"
    "\<not> startswith (name rubber_obj) ''__''"
    by (simp_all add: rubber_obj_def mesh_object_def startswith_def)
  have c: "count_root_children [rubber_obj] = 1"
    using a by (simp add: count_root_children_def)
  have w: "write_object env0 rubber_obj w = (Some KeyError, w)" for w
    by (simp add: rubber_obj_def mesh_object_def startswith_def write_mesh_node_def
        split_rubber[unfolded rubber_obj_def mesh_object_def])
  have n: "NodeWriter_write env0 [rubber_obj] empty_writer
       = (Some KeyError, \<lparr>out = root_tokens 1, warnings = []\<rparr>)"
    using a by (simp add: NodeWriter_write_def root_node_written c w)
  have f: "write_mesh_material rubber_obj \<lparr>material_id = None, vertices = [], indices = []\<rparr> empty_writer
       = \<lparr>out = [UInt 0], warnings = [''No material to mesh '' @ quoted ''tyre'' @ '' assigned'']\<rparr>"
    by (simp add: write_mesh_material_def a warn_def write_uint_def emit_def empty_writer_def)
  show ?thesis
    using split_rubber n f by (simp add: env0_def)
qed

text \<open>
  C2, on the code. The top-level mesh object \<open>points\<close> has a material slot and no face,
  so it is split into no mesh group; having no parent, it gets no wrapping node
  either. The root node counts it (child count 1), and no record follows the root.
\<close>

theorem faceless_mesh_breaks_child_count:
  "split_object_by_materials env0 points_obj = Inr []
   \<and> count_root_children [points_obj] = 1
   \<and> NodeWriter_write env0 [points_obj] empty_writer
       = (None, \<lparr>out = [UInt 1, Str ''BlenderFile'', UInt 1, Bool True, Mat Matrix_identity],
                 warnings = []\<rparr>)"
proof -
  have a: "parent points_obj = None" "visible_get points_obj"
    "\<not> startswith (name points_obj) ''__''"
    by (simp_all add: points_obj_def mesh_object_def startswith_def)
  have s: "split_object_by_materials env0 points_obj = Inr []"
    by (simp add: split_object_by_materials_def points_obj_def mesh_object_def no_faces_def
        env0_def)
  have c: "count_root_children [points_obj] = 1"
    using a by (simp add: count_root_children_def)
  have w: "write_object env0 points_obj w = (None, w)" for w
    by (simp add: points_obj_def mesh_object_def startswith_def write_mesh_node_def
        s[unfolded points_obj_def mesh_object_def] split_meshes_for_vertex_limit_def)
  have "NodeWriter_write env0 [points_obj] empty_writer
       = (None, \<lparr>out = root_tokens 1, warnings = []\<rparr>)"
    using a by (simp add: NodeWriter_write_def root_node_written c w)
  then show ?thesis using s c by (simp add: root_tokens_def)
qed

section \<open>Index-limit splitter: invariants\<close>

lemma wf_map_lookup:
  assumes "wf_map m" and "map_of m k = Some j"
  shows "j < length m \<and> fst (m ! j) = k"
proof -
  have "(k, j) \<in> set m" using assms(2) by (rule map_of_SomeD)
  then obtain p where p: "p < length m" "m ! p = (k, j)" by (auto simp: in_set_conv_nth)
  have "snd (m ! p) = map snd m ! p" using p(1) by simp
  also have "\<dots> = p" using assms(1) p(1) by (simp add: wf_map_def)
  finally have "j = p" using p(2) by simp
  then show ?thesis using p by simp
qed

lemma wf_map_extend:
  assumes "wf_map m" and "map_of m k = None"
  shows "wf_map (m @ [(k, length m)])"
proof -
  have "k \<notin> fst ` set m" using assms(2) by (simp add: map_of_eq_None_iff)
  then show ?thesis using assms(1) by (simp add: wf_map_def)
qed

lemma keys_of_append:
  "\<forall>j\<in>set js. j < length m \<Longrightarrow> keys_of (m @ ext) js = keys_of m js"
  by (simp add: keys_of_def nth_append)

lemma remap_face_inv:
  assumes "wf_map m" and "\<forall>j\<in>set new. j < length m"
    and "remap_face face m new = (m', new')"
  shows "wf_map m' \<and> (\<forall>j\<in>set new'. j < length m') \<and>
         keys_of m' new' = keys_of m new @ face \<and>
         length m \<le> length m' \<and> length m' \<le> length m + length face \<and>
         set (map fst m') \<subseteq> set (map fst m) \<union> set face"
  using assms
proof (induction face arbitrary: m new)
  case Nil
  then show ?case by simp
next
  case (Cons k face)
  show ?case
  proof (cases "map_of m k")
    case None
    let ?m1 = "m @ [(k, length m)]"
    let ?n1 = "new @ [length m]"
    have r: "remap_face face ?m1 ?n1 = (m', new')" using Cons.prems(3) None by simp
    have w: "wf_map ?m1" using wf_map_extend[OF Cons.prems(1) None] .
    have b: "\<forall>j\<in>set ?n1. j < length ?m1" using Cons.prems(2) by auto
    have k1: "keys_of ?m1 ?n1 = keys_of m new @ [k]"
      using keys_of_append[OF Cons.prems(2), of "[(k, length m)]"]
      by (simp add: keys_of_def)
    show ?thesis using Cons.IH[OF w b r] k1 by auto
  next
    case (Some j)
    let ?n1 = "new @ [j]"
    have r: "remap_face face m ?n1 = (m', new')" using Cons.prems(3) Some by simp
    have jj: "j < length m \<and> fst (m ! j) = k" using wf_map_lookup[OF Cons.prems(1) Some] .
    have b: "\<forall>j\<in>set ?n1. j < length m" using Cons.prems(2) jj by auto
    have k1: "keys_of m ?n1 = keys_of m new @ [k]" using jj by (simp add: keys_of_def)
    show ?thesis using Cons.IH[OF Cons.prems(1) b r] k1 by auto
  qed
qed

lemma split_faces_inv:
  assumes "wf_map m" and "\<forall>j\<in>set new. j < length m" and "length m + 3 \<le> limit"
    and "3 dvd length idx" and "3 dvd i" and "i \<le> length idx"
    and "split_faces limit idx i m new = (i', m', new')"
  shows "wf_map m' \<and> (\<forall>j\<in>set new'. j < length m') \<and>
         keys_of m' new' = keys_of m new @ take (i' - i) (drop i idx) \<and>
         i \<le> i' \<and> i' \<le> length idx \<and> 3 dvd i' \<and> length m' \<le> limit \<and>
         set (map fst m') \<subseteq> set (map fst m) \<union> set idx"
  using assms
proof (induction limit idx i m new rule: split_faces.induct)
  case (1 limit idx i m new)
  show ?case
  proof (cases "i < length idx")
    case False
    then have "split_faces limit idx i m new = (i, m, new)"
      by (subst split_faces.simps) simp
    then show ?thesis using "1.prems" by auto
  next
    case True
    obtain m1 n1 where r: "remap_face (take 3 (drop i idx)) m new = (m1, n1)"
      by (cases "remap_face (take 3 (drop i idx)) m new")
    have i3: "i + 3 \<le> length idx" using True "1.prems"(4,5) by presburger
    then have l3: "length (take 3 (drop i idx)) = 3" by simp
    have inv1: "wf_map m1 \<and> (\<forall>j\<in>set n1. j < length m1) \<and>
         keys_of m1 n1 = keys_of m new @ take 3 (drop i idx) \<and>
         length m \<le> length m1 \<and> length m1 \<le> length m + 3 \<and>
         set (map fst m1) \<subseteq> set (map fst m) \<union> set (take 3 (drop i idx))"
      using remap_face_inv[OF "1.prems"(1,2) r] l3 by simp
    have sub: "set (take 3 (drop i idx)) \<subseteq> set idx"
      by (meson set_take_subset set_drop_subset subset_trans)
    show ?thesis
    proof (cases "length m1 \<ge> limit - 3")
      case brk: True
      have "split_faces limit idx i m new = (i + 3, m1, n1)"
        using True r brk by (subst split_faces.simps) simp
      then have e: "i' = i + 3" "m' = m1" "new' = n1" using "1.prems"(7) by simp_all
      show ?thesis using inv1 sub i3 "1.prems"(3,5) by (auto simp: e)
    next
      case cont: False
      have s: "split_faces limit idx i m new = split_faces limit idx (i + 3) m1 n1"
        using True r cont by (subst split_faces.simps) simp
      then have r2: "split_faces limit idx (i + 3) m1 n1 = (i', m', new')"
        using "1.prems"(7) by simp
      have lim: "length m1 + 3 \<le> limit" using cont by simp
      have d3: "3 dvd (i + 3)" using "1.prems"(5) by simp
      have w1: "wf_map m1" and b1: "\<forall>j\<in>set n1. j < length m1" using inv1 by simp_all
      have ih: "wf_map m' \<and> (\<forall>j\<in>set new'. j < length m') \<and>
         keys_of m' new' = keys_of m1 n1 @ take (i' - (i + 3)) (drop (i + 3) idx) \<and>
         i + 3 \<le> i' \<and> i' \<le> length idx \<and> 3 dvd i' \<and> length m' \<le> limit \<and>
         set (map fst m') \<subseteq> set (map fst m1) \<union> set idx"
        using "1.IH"[OF True r[symmetric] cont w1 b1 lim "1.prems"(4) d3 i3 r2] .
      have "take 3 (drop i idx) @ take (i' - (i + 3)) (drop (i + 3) idx)
          = take (i' - i) (drop i idx)"
      proof -
        have "i' - i = 3 + (i' - (i + 3))" using ih by simp
        then have "take (i' - i) (drop i idx)
            = take 3 (drop i idx) @ take (i' - (i + 3)) (drop 3 (drop i idx))"
          by (simp only: take_add)
        then show ?thesis by (simp add: add.commute)
      qed
      then have k: "keys_of m' new' = keys_of m new @ take (i' - i) (drop i idx)"
        using ih inv1 by simp
      have ss: "set (map fst m') \<subseteq> set (map fst m) \<union> set idx"
      proof -
        have "set (map fst m') \<subseteq> set (map fst m1) \<union> set idx" using ih by blast
        moreover have "set (map fst m1) \<subseteq> set (map fst m) \<union> set idx"
          using inv1 sub by blast
        ultimately show ?thesis by blast
      qed
      have "i \<le> i'" using ih by simp
      then show ?thesis using ih k ss by blast
    qed
  qed
qed

lemma wf_map_sorted: "wf_map m \<Longrightarrow> sort_key snd m = m"
  by (rule sort_key_id_if_sorted) (simp add: wf_map_def)

lemma lookup_vertices_ok:
  "\<forall>k\<in>set ks. k < length vs \<Longrightarrow> lookup_vertices vs ks = Inr (map (\<lambda>k. vs ! k) ks)"
  by (induction ks) simp_all

lemma split_mesh_groups:
  assumes "3 \<le> limit" and "3 dvd length (indices mesh)" and "3 dvd start"
    and "start \<le> length (indices mesh)"
    and "\<forall>k\<in>set (indices mesh). k < length (vertices mesh)"
  shows "\<exists>subs chunks. split_mesh limit mesh start acc = Inr (acc @ subs) \<and>
           concat chunks = drop start (indices mesh) \<and>
           list_all2 (sub_group_of limit mesh) chunks subs"
  using assms
proof (induction limit mesh start acc rule: split_mesh.induct)
  case (1 limit mesh start acc)
  let ?idx = "indices mesh"
  show ?case
  proof (cases "start < length ?idx")
    case False
    then have "split_mesh limit mesh start acc = Inr (acc @ [])"
      by (subst split_mesh.simps) simp
    moreover have "concat [] = drop start ?idx" using False by simp
    moreover have "list_all2 (sub_group_of limit mesh) [] []" by simp
    ultimately show ?thesis by blast
  next
    case True
    obtain i' m new where sf: "split_faces limit ?idx start [] [] = (i', m, new)"
      by (cases "split_faces limit ?idx start [] []") auto
    have w0: "wf_map []" by (simp add: wf_map_def)
    have inv: "wf_map m \<and> (\<forall>j\<in>set new. j < length m) \<and>
         keys_of m new = keys_of [] [] @ take (i' - start) (drop start ?idx) \<and>
         start \<le> i' \<and> i' \<le> length ?idx \<and> 3 dvd i' \<and> length m \<le> limit \<and>
         set (map fst m) \<subseteq> set (map fst []) \<union> set ?idx"
      using split_faces_inv[OF w0 _ _ "1.prems"(2,3,4) sf] "1.prems"(1) by simp
    let ?chunk = "take (i' - start) (drop start ?idx)"
    have keys: "keys_of m new = ?chunk" using inv by (simp add: keys_of_def)
    have kb: "\<forall>k\<in>set (map fst m). k < length (vertices mesh)"
      using inv "1.prems"(5) by auto
    let ?verts = "map (\<lambda>k. vertices mesh ! k) (map fst m)"
    have lk: "lookup_vertices (vertices mesh) (map fst (sort_key snd m)) = Inr ?verts"
      using lookup_vertices_ok[OF kb] inv by (simp add: wf_map_sorted)
    let ?g = "\<lparr>material_id = material_id mesh, vertices = ?verts, indices = new\<rparr>"
    have step: "split_mesh limit mesh start acc = split_mesh limit mesh i' (acc @ [?g])"
      using True sf lk by (subst split_mesh.simps) simp
    have lc: "length ?chunk = i' - start" using inv by auto
    have d3: "3 dvd length ?chunk" using lc inv "1.prems"(3) by (simp add: dvd_diff_nat)
    have ln: "length new = length ?chunk"
      using keys by (metis keys_of_def length_map)
    have dec: "map (\<lambda>j. ?verts ! j) new = map (\<lambda>k. vertices mesh ! k) ?chunk"
    proof -
      have "map (\<lambda>j. ?verts ! j) new = map (\<lambda>j. vertices mesh ! fst (m ! j)) new"
        using inv by (intro map_cong) simp_all
      also have "\<dots> = map (\<lambda>k. vertices mesh ! k) (keys_of m new)"
        by (simp add: keys_of_def)
      finally show ?thesis using keys by simp
    qed
    have sg: "sub_group_of limit mesh ?chunk ?g"
      using d3 ln inv dec by (simp add: sub_group_of_def list_all_iff)
    obtain subs chunks where
      ih: "split_mesh limit mesh i' (acc @ [?g]) = Inr ((acc @ [?g]) @ subs)"
        "concat chunks = drop i' ?idx" "list_all2 (sub_group_of limit mesh) chunks subs"
      using "1.IH"[OF True sf[symmetric] refl lk "1.prems"(1,2)] inv "1.prems"(5) by blast
    have "drop start ?idx = ?chunk @ drop i' ?idx"
    proof -
      have "drop start ?idx = ?chunk @ drop (i' - start) (drop start ?idx)"
        by (simp only: append_take_drop_id)
      moreover have "drop (i' - start) (drop start ?idx) = drop i' ?idx"
        using inv by simp
      ultimately show ?thesis by simp
    qed
    then have cc: "concat (?chunk # chunks) = drop start ?idx" using ih(2) by simp
    have "split_mesh limit mesh start acc = Inr (acc @ (?g # subs))"
      using step ih(1) by simp
    moreover have "list_all2 (sub_group_of limit mesh) (?chunk # chunks) (?g # subs)"
      using sg ih(3) by simp
    ultimately show ?thesis using cc by blast
  qed
qed

lemma split_meshes_loop_parts:
  assumes "3 \<le> limit" and "list_all mesh_ok ms"
  shows "\<exists>parts. split_meshes_loop limit ms acc = Inr (acc @ concat parts) \<and>
           list_all2 (split_part limit) ms parts"
  using assms(2)
proof (induction ms arbitrary: acc)
  case Nil
  have "split_meshes_loop limit [] acc = Inr (acc @ concat [])" by simp
  then show ?case by (metis list_all2_Nil)
next
  case (Cons mesh ms)
  have ok: "mesh_ok mesh" and rest: "list_all mesh_ok ms" using Cons.prems by simp_all
  show ?case
  proof (cases "length (vertices mesh) > limit")
    case True
    obtain subs chunks where
      s: "split_mesh limit mesh 0 acc = Inr (acc @ subs)"
        "concat chunks = drop 0 (indices mesh)"
        "list_all2 (sub_group_of limit mesh) chunks subs"
      using split_mesh_groups[OF assms(1), of mesh 0 acc] ok
      by (auto simp: mesh_ok_def list_all_iff)
    obtain parts where
      p: "split_meshes_loop limit ms (acc @ subs) = Inr ((acc @ subs) @ concat parts)"
        "list_all2 (split_part limit) ms parts"
      using Cons.IH[OF rest] by blast
    have "split_meshes_loop limit (mesh # ms) acc = Inr (acc @ concat (subs # parts))"
      using True s(1) p(1) by simp
    moreover have "split_part limit mesh subs"
      using True s(2,3) by (auto simp: split_part_def)
    ultimately show ?thesis using p(2) by (metis list_all2_Cons)
  next
    case False
    obtain parts where
      p: "split_meshes_loop limit ms (acc @ [mesh]) = Inr ((acc @ [mesh]) @ concat parts)"
        "list_all2 (split_part limit) ms parts"
      using Cons.IH[OF rest] by blast
    have "split_meshes_loop limit (mesh # ms) acc = Inr (acc @ concat ([mesh] # parts))"
      using False p(1) by simp
    moreover have "split_part limit mesh [mesh]"
      using False by (simp add: split_part_def)
    ultimately show ?thesis using p(2) by (metis list_all2_Cons)
  qed
qed

lemma split_part_groups:
  assumes "mesh_ok mesh" and "split_part limit mesh part" and "g \<in> set part"
  shows "3 dvd length (indices g) \<and> length (vertices g) \<le> limit \<and>
         material_id g = material_id mesh \<and> list_all (\<lambda>j. j < length (vertices g)) (indices g)"
proof (cases "length (vertices mesh) > limit")
  case True
  then obtain chunks where "list_all2 (sub_group_of limit mesh) chunks part"
    using assms(2) by (auto simp: split_part_def)
  then obtain c where "sub_group_of limit mesh c g"
    using assms(3) by (metis in_set_conv_nth list_all2_conv_all_nth)
  then show ?thesis by (simp add: sub_group_of_def)
next
  case False
  then have "g = mesh" using assms(2,3) by (simp add: split_part_def)
  then show ?thesis using assms(1) False by (simp add: mesh_ok_def)
qed

lemma wf_vdict_item: "wf_vdict vs \<Longrightarrow> item \<in> set vs \<Longrightarrow> snd item < length vs"
proof -
  assume w: "wf_vdict vs" and i: "item \<in> set vs"
  have "snd item \<in> set (map snd vs)" using i by simp
  then have "snd item \<in> set [0..<length vs]" using w by (simp only: wf_vdict_def)
  then show ?thesis by simp
qed

lemma insert_vertex_wf:
  assumes "wf_vdict vs" and "insert_vertex v vs = (vs', i)"
  shows "wf_vdict vs' \<and> i < length vs' \<and> length vs \<le> length vs'"
proof (cases "lookup_vertex v vs")
  case None
  then have "vs' = vs @ [(v, length vs)]" "i = length vs"
    using assms(2) by (auto simp: insert_vertex_def)
  then show ?thesis using assms(1) by (simp add: wf_vdict_def)
next
  case (Some item)
  then have e: "vs' = vs" "i = snd item" using assms(2) by (auto simp: insert_vertex_def)
  have "item \<in> set vs" using Some by (auto simp: lookup_vertex_def dest: find_Some_iff[THEN iffD1] nth_mem)
  then show ?thesis using e assms(1) wf_vdict_item by simp
qed

lemma face_loop_wf:
  assumes "wf_vdict vs" and "\<forall>j\<in>set fi. j < length vs"
    and "face_loop e obj mesh mi ls vs fi = Inr (vs', fi')"
  shows "wf_vdict vs' \<and> (\<forall>j\<in>set fi'. j < length vs') \<and> length vs \<le> length vs'"
  using assms
proof (induction ls arbitrary: vs fi)
  case Nil
  then show ?case by simp
next
  case (Cons l ls)
  obtain v where v: "loop_vertex e obj mesh mi l = Inr v"
    using Cons.prems(3) by (cases "loop_vertex e obj mesh mi l") simp_all
  obtain vs1 i where r: "insert_vertex v vs = (vs1, i)" by (cases "insert_vertex v vs")
  have w: "wf_vdict vs1 \<and> i < length vs1 \<and> length vs \<le> length vs1"
    using insert_vertex_wf[OF Cons.prems(1) r] .
  have b: "\<forall>j\<in>set (fi @ [i]). j < length vs1" using Cons.prems(2) w by auto
  have f: "face_loop e obj mesh mi ls vs1 (fi @ [i]) = Inr (vs', fi')"
    using Cons.prems(3) v r by simp
  show ?case using Cons.IH[OF _ b f] w by auto
qed

lemma extend_face_ok:
  assumes "extend_face fi idx = Inr idx'" and "\<forall>j\<in>set fi. j < n" and "\<forall>j\<in>set idx. j < n"
    and "3 dvd length idx"
  shows "(\<forall>j\<in>set idx'. j < n) \<and> 3 dvd length idx'"
proof -
  have l: "3 \<le> length fi" using assms(1) by (auto simp: extend_face_def split: if_splits)
  have p: "0 < length fi" "1 < length fi" "2 < length fi" using l by linarith+
  have "fi ! 0 \<in> set fi" "fi ! 1 \<in> set fi" "fi ! 2 \<in> set fi"
    using nth_mem[OF p(1)] nth_mem[OF p(2)] nth_mem[OF p(3)] .
  then have "fi ! 0 < n" "fi ! 1 < n" "fi ! 2 < n" using assms(2) by blast+
  moreover have "length fi = 4 \<Longrightarrow> fi ! 3 < n"
  proof -
    assume "length fi = 4"
    then have "3 < length fi" by simp
    then have "fi ! 3 \<in> set fi" by (rule nth_mem)
    then show ?thesis using assms(2) by blast
  qed
  moreover have "3 dvd Suc (Suc (Suc (length idx)))"
    "3 dvd Suc (Suc (Suc (Suc (Suc (Suc (length idx))))))"
    using assms(4) by presburger+
  ultimately show ?thesis
    using assms(1,3) l by (auto simp: extend_face_def Let_def split: if_splits)
qed

lemma add_triangle_ok:
  assumes "wf_vdict vs" and "\<forall>j\<in>set idx. j < length vs" and "3 dvd length idx"
    and "add_triangle e obj mesh mi triangle vs idx = Inr (vs', idx')"
  shows "wf_vdict vs' \<and> (\<forall>j\<in>set idx'. j < length vs') \<and> 3 dvd length idx'"
proof -
  obtain fi where f: "face_loop e obj mesh mi (loops triangle) vs [] = Inr (vs', fi)"
    and x: "extend_face fi idx = Inr idx'"
    using assms(4) by (auto simp: add_triangle_def split: sum.splits prod.splits)
  have w: "wf_vdict vs' \<and> (\<forall>j\<in>set fi. j < length vs') \<and> length vs \<le> length vs'"
    using face_loop_wf[OF assms(1) _ f] by simp
  have "\<forall>j\<in>set idx. j < length vs'" using assms(2) w by auto
  then show ?thesis using extend_face_ok[OF x _ _ assms(3), of "length vs'"] w by simp
qed

lemma triangles_loop_ok:
  assumes "wf_vdict vs" and "\<forall>j\<in>set idx. j < length vs" and "3 dvd length idx"
    and "triangles_loop e obj mesh mi ts vs idx = Inr (vs', idx')"
  shows "wf_vdict vs' \<and> (\<forall>j\<in>set idx'. j < length vs') \<and> 3 dvd length idx'"
  using assms
proof (induction ts arbitrary: vs idx)
  case Nil
  then show ?case by simp
next
  case (Cons t ts)
  show ?case
  proof (cases "mi \<noteq> material_index t")
    case True
    then show ?thesis using Cons by simp
  next
    case False
    then obtain vs1 idx1 where a: "add_triangle e obj mesh mi t vs idx = Inr (vs1, idx1)"
      and r: "triangles_loop e obj mesh mi ts vs1 idx1 = Inr (vs', idx')"
      using Cons.prems(4) by (auto split: sum.splits prod.splits)
    have "wf_vdict vs1 \<and> (\<forall>j\<in>set idx1. j < length vs1) \<and> 3 dvd length idx1"
      using add_triangle_ok[OF Cons.prems(1,2,3) a] .
    then show ?thesis using Cons.IH[OF _ _ _ r] by simp
  qed
qed

lemma vertex_buffer_wf: "wf_vdict vs \<Longrightarrow> vertex_buffer vs = map fst vs"
proof -
  assume "wf_vdict vs"
  then have "sorted (map snd vs)" by (simp add: wf_vdict_def)
  then show ?thesis by (simp add: vertex_buffer_def sort_key_id_if_sorted)
qed

lemma materials_loop_ok:
  assumes "list_all mesh_ok acc" and "materials_loop e obj mesh mis acc = Inr ms"
  shows "list_all mesh_ok ms"
  using assms
proof (induction mis arbitrary: acc)
  case Nil
  then show ?case by simp
next
  case (Cons mi mis)
  obtain mat vs idx mat_id where
    t: "triangles_loop e obj mesh mi (mesh_triangles mesh) [] [] = Inr (vs, idx)"
    and r: "materials_loop e obj mesh mis
              (acc @ [\<lparr>material_id = mat_id, vertices = vertex_buffer vs, indices = idx\<rparr>]) = Inr ms"
    using Cons.prems(2)
    by (auto split: if_splits option.splits sum.splits prod.splits)
  have w: "wf_vdict vs \<and> (\<forall>j\<in>set idx. j < length vs) \<and> 3 dvd length idx"
    using triangles_loop_ok[OF _ _ _ t] by (simp add: wf_vdict_def)
  then have "mesh_ok \<lparr>material_id = mat_id, vertices = vertex_buffer vs, indices = idx\<rparr>"
    by (simp add: mesh_ok_def vertex_buffer_wf list_all_iff)
  then show ?case using Cons.IH[OF _ r] Cons.prems(1) by simp
qed

lemma split_object_by_materials_ok:
  "split_object_by_materials e obj = Inr ms \<Longrightarrow> list_all mesh_ok ms"
  using materials_loop_ok[of "[]" e obj "to_mesh obj" _ ms]
  by (auto simp: split_object_by_materials_def Let_def split: if_splits)

text \<open>
  C1. Every mesh handed to the splitter by the grouping step is made of whole
  triangles whose indices are positions of its vertex buffer
  (\<open>split_object_by_materials_ok\<close>). For such a list of meshes the splitter returns,
  and its output is the concatenation of one part per input mesh: the mesh itself
  when it has at most 65536 vertices, and otherwise sub-groups for consecutive chunks
  of the parent's index list. Each chunk is a whole number of triangles, so no
  triangle is split; the sub-group has the parent's material id, at most 65536
  vertices, and its indices name the same vertices as the chunk does in the parent.
  So every group produced has an index list of a length divisible by 3, at most 65536
  vertices and the material id of the mesh it comes from.
\<close>

theorem split_meshes_for_vertex_limit_groups:
  assumes "list_all mesh_ok ms"
  shows "\<exists>out parts. split_meshes_for_vertex_limit ms = Inr out \<and> concat parts = out \<and>
           list_all2 (split_part (2 ^ 16)) ms parts \<and>
           list_all (\<lambda>g. 3 dvd length (indices g) \<and> length (vertices g) \<le> 2 ^ 16 \<and>
                         list_all (\<lambda>j. j < length (vertices g)) (indices g) \<and>
                         (\<exists>m\<in>set ms. material_id g = material_id m)) out"
proof -
  have l: "(3::nat) \<le> 2 ^ 16" by simp
  obtain parts where p: "split_meshes_loop (2 ^ 16) ms [] = Inr ([] @ concat parts)"
    and q: "list_all2 (split_part (2 ^ 16)) ms parts"
    using split_meshes_loop_parts[OF l assms, of "[]"] by blast
  have "3 dvd length (indices g) \<and> length (vertices g) \<le> 2 ^ 16 \<and>
        list_all (\<lambda>j. j < length (vertices g)) (indices g) \<and>
        (\<exists>m\<in>set ms. material_id g = material_id m)" if g: "g \<in> set (concat parts)" for g
  proof -
    obtain part where pt: "part \<in> set parts" "g \<in> set part" using g by auto
    then obtain i where i: "i < length parts" "parts ! i = part"
      by (auto simp: in_set_conv_nth)
    have len: "length ms = length parts" using q by (rule list_all2_lengthD)
    have sp: "split_part (2 ^ 16) (ms ! i) part" using q i by (auto simp: list_all2_conv_all_nth)
    have mem: "ms ! i \<in> set ms" using i len by simp
    then have ok: "mesh_ok (ms ! i)" using assms by (simp add: list_all_iff)
    show ?thesis using split_part_groups[OF ok sp pt(2)] mem by blast
  qed
  then have la: "list_all (\<lambda>g. 3 dvd length (indices g) \<and> length (vertices g) \<le> 2 ^ 16 \<and>
                         list_all (\<lambda>j. j < length (vertices g)) (indices g) \<and>
                         (\<exists>m\<in>set ms. material_id g = material_id m)) (concat parts)"
    unfolding list_all_iff by blast
  have e: "split_meshes_for_vertex_limit ms = Inr (concat parts)"
    using p by (simp add: split_meshes_for_vertex_limit_def)
  show ?thesis using e q la by blast
qed

lemma big_mesh_fields:
  "material_id big_mesh = Some 7"
  "vertices big_mesh = replicate 65537 (vtx (0, 0, 0))"
  "indices big_mesh = [0, Suc 0, 2, 2, Suc 0, 0]"
  "length (indices big_mesh) = 6"
  by (simp_all add: big_mesh_def)

lemma split_big_mesh:
  "split_meshes_for_vertex_limit [big_mesh]
     = Inr [\<lparr>material_id = Some 7, vertices = replicate 3 (vtx (0, 0, 0)),
             indices = [0, 1, 2, 2, 1, 0]\<rparr>]"
proof -
  have f: "split_faces 65536 [0, Suc 0, 2, 2, Suc 0, 0] 0 [] []
      = (6, [(0, 0), (Suc 0, Suc 0), (2, 2)], [0, Suc 0, 2, 2, Suc 0, 0])"
    by (simp add: split_faces.simps)
  have s: "sort_key snd [(0::nat, 0::nat), (Suc 0, Suc 0), (2, 2)] = [(0, 0), (Suc 0, Suc 0), (2, 2)]"
    by (rule sort_key_id_if_sorted) simp
  have m2: "split_mesh (2 ^ 16) big_mesh 6 acc = Inr acc"
    and m2': "split_mesh 65536 big_mesh 6 acc = Inr acc" for acc
    by (subst split_mesh.simps, simp add: big_mesh_fields)+
  have m: "split_mesh 65536 big_mesh 0 []
      = Inr [\<lparr>material_id = Some 7, vertices = replicate 3 (vtx (0, 0, 0)),
              indices = [0, 1, 2, 2, 1, 0]\<rparr>]"
    by (subst split_mesh.simps) (simp add: big_mesh_fields f s m2 m2' numeral_3_eq_3)
  show ?thesis
    by (simp add: split_meshes_for_vertex_limit_def m big_mesh_fields(2))
qed

text \<open>
  Witness for C1: a mesh of 65537 vertices and two triangles is split into one
  sub-group of three vertices that keeps both triangles and the material id 7.
\<close>

theorem split_meshes_witness:
  "list_all mesh_ok [big_mesh] \<and>
   split_meshes_for_vertex_limit [big_mesh]
     = Inr [\<lparr>material_id = Some 7, vertices = replicate 3 (vtx (0, 0, 0)),
             indices = [0, 1, 2, 2, 1, 0]\<rparr>] \<and>
   (\<exists>out parts. split_meshes_for_vertex_limit [big_mesh] = Inr out \<and> concat parts = out \<and>
           list_all2 (split_part (2 ^ 16)) [big_mesh] parts \<and>
           list_all (\<lambda>g. 3 dvd length (indices g) \<and> length (vertices g) \<le> 2 ^ 16 \<and>
                         list_all (\<lambda>j. j < length (vertices g)) (indices g) \<and>
                         (\<exists>m\<in>set [big_mesh]. material_id g = material_id m)) out)"
proof -
  have ok: "list_all mesh_ok [big_mesh]"
    by (simp add: mesh_ok_def big_mesh_fields(4)) (simp add: big_mesh_fields)
  show ?thesis
    using ok split_big_mesh split_meshes_for_vertex_limit_groups[OF ok] by blast
qed

text \<open>
  The splitting loop run with the limit 8 on a mesh of nine vertices and four
  triangles: the first sub-group is closed after the third triangle, with seven
  vertices; the fourth triangle starts a second sub-group with fresh indices.
\<close>

lemma nine_mesh_fields:
  "material_id nine_mesh = Some 7"
  "vertices nine_mesh = map (\<lambda>x. vtx (x, 0, 0)) [0, 1, 2, 3, 4, 5, 6, 7, 8]"
  "indices nine_mesh = [0, Suc 0, 2, 2, Suc 0, 3, 4, 5, 6, 0, 7, 8]"
  by (simp_all add: nine_mesh_def)

lemma split_nine_mesh:
  "split_meshes_loop 8 [nine_mesh] []
     = Inr [\<lparr>material_id = Some 7,
              vertices = map (\<lambda>x. vtx (x, 0, 0)) [0, 1, 2, 3, 4, 5, 6],
              indices = [0, 1, 2, 2, 1, 3, 4, 5, 6]\<rparr>,
            \<lparr>material_id = Some 7,
              vertices = map (\<lambda>x. vtx (x, 0, 0)) [0, 7, 8],
              indices = [0, 1, 2]\<rparr>]"
proof -
  have f1: "split_faces 8 [0, Suc 0, 2, 2, Suc 0, 3, 4, 5, 6, 0, 7, 8] 0 [] []
      = (9, [(0, 0), (Suc 0, Suc 0), (2, 2), (3, 3), (4, 4), (5, 5), (6, 6)],
         [0, Suc 0, 2, 2, Suc 0, 3, 4, 5, 6])"
    by (simp add: split_faces.simps)
  have f2: "split_faces 8 [0, Suc 0, 2, 2, Suc 0, 3, 4, 5, 6, 0, 7, 8] 9 [] []
      = (12, [(0, 0), (7, Suc 0), (8, 2)], [0, Suc 0, 2])"
    by (simp add: split_faces.simps)
  have s1: "sort_key snd [(0::nat, 0::nat), (Suc 0, Suc 0), (2, 2), (3, 3), (4, 4), (5, 5), (6, 6)]
      = [(0, 0), (Suc 0, Suc 0), (2, 2), (3, 3), (4, 4), (5, 5), (6, 6)]"
    by (rule sort_key_id_if_sorted) simp
  have s2: "sort_key snd [(0::nat, 0::nat), (7, Suc 0), (8, 2)] = [(0, 0), (7, Suc 0), (8, 2)]"
    by (rule sort_key_id_if_sorted) simp
  have m3: "split_mesh 8 nine_mesh 12 acc = Inr acc" for acc
    by (subst split_mesh.simps) (simp add: nine_mesh_fields)
  have m2: "split_mesh 8 nine_mesh 9 acc
      = Inr (acc @ [\<lparr>material_id = Some 7, vertices = map (\<lambda>x. vtx (x, 0, 0)) [0, 7, 8],
                          indices = [0, 1, 2]\<rparr>])" for acc
    by (subst split_mesh.simps) (simp add: nine_mesh_fields f2 s2 m3)
  have m: "split_mesh 8 nine_mesh 0 []
      = Inr [\<lparr>material_id = Some 7,
              vertices = map (\<lambda>x. vtx (x, 0, 0)) [0, 1, 2, 3, 4, 5, 6],
              indices = [0, 1, 2, 2, 1, 3, 4, 5, 6]\<rparr>,
            \<lparr>material_id = Some 7,
              vertices = map (\<lambda>x. vtx (x, 0, 0)) [0, 7, 8],
              indices = [0, 1, 2]\<rparr>]"
    by (subst split_mesh.simps) (simp add: nine_mesh_fields f1 s1 m2)
  show ?thesis
    by (simp add: m nine_mesh_fields(2))
qed

section \<open>Mesh nodes\<close>

lemma wrote_wrote: "wrote (wrote w a b) c d = wrote w (a @ c) (b @ d)"
  by (simp add: wrote_def)

lemma wrote_nothing: "wrote w [] [] = w"
  by (simp add: wrote_def)

lemma write_vertices_tokens:
  "foldl write_vertex w vs = wrote w (concat (map vertex_tokens vs)) []"
proof (induction vs arbitrary: w)
  case Nil
  then show ?case by (simp add: wrote_def)
next
  case (Cons v vs)
  have "write_vertex w v = wrote w (vertex_tokens v) []"
    by (simp add: write_vertex_def vertex_tokens_def wrote_def write_vector3_def
        write_vector2_def emit_def)
  then show ?case using Cons.IH by (simp add: wrote_wrote)
qed

lemma write_indices_tokens:
  "foldl (\<lambda>w i. write_ushort i w) w idx = wrote w (map UShort idx) []"
proof (induction idx arbitrary: w)
  case Nil
  then show ?case by (simp add: wrote_def)
next
  case (Cons i idx)
  have "write_ushort i w = wrote w [UShort i] []"
    by (simp add: write_ushort_def wrote_def emit_def)
  then show ?case using Cons.IH by (simp add: wrote_wrote)
qed

lemma write_bounding_sphere_tokens:
  "write_bounding_sphere vs w
     = wrote w [Vec3 (sphere_center (bounds_of vs)), Float (sphere_radius (bounds_of vs))] []"
  by (simp add: write_bounding_sphere_def Let_def wrote_def write_float_def write_vector3_def
      emit_def)

lemma write_mesh_material_tokens:
  "write_mesh_material obj mesh w
     = wrote w [UInt (case material_id mesh of None \<Rightarrow> 0 | Some i \<Rightarrow> i)] (mesh_warnings obj mesh)"
  by (simp add: write_mesh_material_def mesh_warnings_def wrote_def warn_def write_uint_def
      emit_def split: option.splits)

lemma write_mesh_record:
  assumes "length (vertices mesh) \<le> 2 ^ 16"
  shows "write_mesh obj mesh p w = (None, wrote w (mesh_record obj p mesh) (mesh_warnings obj mesh))"
proof -
  have h: "write_mesh_head obj p w
      = wrote w [UInt 2, Str (name obj), UInt 0, Bool True, Bool (castShadows p),
                 Bool (visible p), Bool (transparent p)] []"
    by (simp add: write_mesh_head_def wrote_def write_bool_def write_uint_def
        write_string_def write_node_class_def emit_def)
  have one: "write_uint n w' = wrote w' [UInt n] []" 
    "write_float x w' = wrote w' [Float x] []"
    "write_bool b w' = wrote w' [Bool b] []" for n x b w'
    by (simp_all add: write_uint_def write_float_def write_bool_def wrote_def emit_def)
  have b: "write_mesh_body obj mesh p w'
      = wrote w' ([UInt (length (vertices mesh))]
     @ concat (map vertex_tokens (vertices mesh))
     @ [UInt (length (indices mesh))]
     @ map UShort (indices mesh)
     @ [UInt (case material_id mesh of None \<Rightarrow> 0 | Some i \<Rightarrow> i),
        UInt (layer p), Float (lodIn p), Float (lodOut p),
        Vec3 (sphere_center (bounds_of (vertices mesh))),
        Float (sphere_radius (bounds_of (vertices mesh))),
        Bool (renderable p)]) (mesh_warnings obj mesh)" for w'
    unfolding write_mesh_body_def Let_def one write_vertices_tokens write_indices_tokens
      write_mesh_material_tokens write_bounding_sphere_tokens wrote_wrote
    by simp
  show ?thesis
    using assms unfolding write_mesh_def Let_def h b wrote_wrote
    by (simp add: mesh_record_def)
qed

lemma write_meshes_records:
  assumes "list_all (\<lambda>g. length (vertices g) \<le> 2 ^ 16) gs"
  shows "write_meshes obj gs p w
     = (None, wrote w (concat (map (mesh_record obj p) gs)) (concat (map (mesh_warnings obj) gs)))"
  using assms
proof (induction gs arbitrary: w)
  case Nil
  then show ?case by (simp add: wrote_nothing)
next
  case (Cons g gs)
  have "write_mesh obj g p w = (None, wrote w (mesh_record obj p g) (mesh_warnings obj g))"
    using write_mesh_record Cons.prems by simp
  then show ?case using Cons.IH Cons.prems by (simp add: wrote_wrote)
qed

lemma write_base_node_data_record:
  "write_base_node_data \<lparr>nd_name = nm, childCount = n, active = True, transform = t\<rparr> w
     = wrote w (node_record nm n t) []"
  by (simp add: write_base_node_data_def node_record_def wrote_def write_matrix_def
      write_bool_def write_uint_def write_string_def write_node_class_def emit_def)

lemma split_meshes_bounded:
  assumes "list_all mesh_ok ms"
  shows "\<exists>out. split_meshes_for_vertex_limit ms = Inr out \<and>
           list_all (\<lambda>g. length (vertices g) \<le> 2 ^ 16) out"
proof -
  have l: "(3::nat) \<le> 2 ^ 16" by simp
  obtain parts where p: "split_meshes_loop (2 ^ 16) ms [] = Inr ([] @ concat parts)"
    and q: "list_all2 (split_part (2 ^ 16)) ms parts"
    using split_meshes_loop_parts[OF l assms, of "[]"] by blast
  have "length (vertices g) \<le> 2 ^ 16" if g: "g \<in> set (concat parts)" for g
  proof -
    obtain part where pt: "part \<in> set parts" "g \<in> set part" using g by auto
    then obtain i where i: "i < length parts" "parts ! i = part"
      by (auto simp: in_set_conv_nth)
    have len: "length ms = length parts" using q by (rule list_all2_lengthD)
    have sp: "split_part (2 ^ 16) (ms ! i) part" using q i by (auto simp: list_all2_conv_all_nth)
    have "ms ! i \<in> set ms" using i len by simp
    then have ok: "mesh_ok (ms ! i)" using assms by (simp add: list_all_iff)
    show ?thesis using split_part_groups[OF ok sp pt(2)] by blast
  qed
  then have "list_all (\<lambda>g. length (vertices g) \<le> 2 ^ 16) (concat parts)"
    unfolding list_all_iff by blast
  moreover have "split_meshes_for_vertex_limit ms = Inr (concat parts)"
    using p by (simp add: split_meshes_for_vertex_limit_def)
  ultimately show ?thesis by blast
qed

text \<open>
  C7, as the code has it. Let the grouping step succeed on a mesh object. Then the
  splitter returns its groups, and \<^verbatim>\<open>_write_mesh_node\<close> does the following.
  With a parent whose world matrix has an inverse it appends a generic node with the
  object's name, the number of groups as child count and, as transform, the inverse
  of the parent's world matrix passed through \<^verbatim>\<open>convert_matrix\<close> (the exporter's
  change of coordinate convention, outside this file), followed by one Mesh record
  per group. Without a parent and with more than one group it appends the same with
  the identity as transform. Without a parent and with exactly one group it appends
  that group's Mesh record alone. Every Mesh record starts with the class tag 2, the
  object's name and the child count 0. With a parent whose world matrix has no
  inverse, \<^verbatim>\<open>Matrix.inverted()\<close> raises ValueError and nothing is written.
\<close>

theorem write_mesh_node_records:
  assumes "split_object_by_materials e obj = Inr by_material"
  shows "\<exists>groups. split_meshes_for_vertex_limit by_material = Inr groups \<and>
     (\<forall>pm inv. parent obj = Some pm \<and> inverted e pm = Some inv \<longrightarrow>
        write_mesh_node e obj w
          = (None, wrote w
               (node_record (name obj) (length groups) (convert_matrix e inv)
                @ concat (map (mesh_record obj (mesh_node_properties e obj)) groups))
               (concat (map (mesh_warnings obj) groups)))) \<and>
     (parent obj = None \<and> length groups > 1 \<longrightarrow>
        write_mesh_node e obj w
          = (None, wrote w
               (node_record (name obj) (length groups) Matrix_identity
                @ concat (map (mesh_record obj (mesh_node_properties e obj)) groups))
               (concat (map (mesh_warnings obj) groups)))) \<and>
     (\<forall>g. parent obj = None \<and> groups = [g] \<longrightarrow>
        write_mesh_node e obj w
          = (None, wrote w (mesh_record obj (mesh_node_properties e obj) g)
               (mesh_warnings obj g))) \<and>
     (\<forall>g p. take 3 (mesh_record obj p g) = [UInt 2, Str (name obj), UInt 0]) \<and>
     (\<forall>pm. parent obj = Some pm \<and> inverted e pm = None \<longrightarrow>
        write_mesh_node e obj w = (Some ValueError, w))"
proof -
  obtain groups where s: "split_meshes_for_vertex_limit by_material = Inr groups"
    and b: "list_all (\<lambda>g. length (vertices g) \<le> 2 ^ 16) groups"
    using split_meshes_bounded[OF split_object_by_materials_ok[OF assms]] by blast
  let ?p = "mesh_node_properties e obj"
  have wm: "write_meshes obj groups ?p w'
     = (None, wrote w' (concat (map (mesh_record obj ?p) groups))
          (concat (map (mesh_warnings obj) groups)))" for w'
    using write_meshes_records[OF b] .
  have a: "write_mesh_node e obj w
          = (None, wrote w
               (node_record (name obj) (length groups) (convert_matrix e inv)
                @ concat (map (mesh_record obj ?p) groups))
               (concat (map (mesh_warnings obj) groups)))"
    if "parent obj = Some pm" "inverted e pm = Some inv" for pm inv
    using that
    by (simp add: write_mesh_node_def assms s write_base_node_data_record wm wrote_wrote)
  have c: "write_mesh_node e obj w
          = (None, wrote w
               (node_record (name obj) (length groups) Matrix_identity
                @ concat (map (mesh_record obj ?p) groups))
               (concat (map (mesh_warnings obj) groups)))"
    if "parent obj = None" "length groups > 1"
    using that
    by (simp add: write_mesh_node_def assms s write_base_node_data_record wm wrote_wrote)
  have d: "write_mesh_node e obj w
          = (None, wrote w (mesh_record obj ?p g) (mesh_warnings obj g))"
    if "parent obj = None" "groups = [g]" for g
    using that wm[of w]
    by (simp add: write_mesh_node_def assms s)
  have t: "take 3 (mesh_record obj p g) = [UInt 2, Str (name obj), UInt 0]" for g p
    by (simp add: mesh_record_def)
  have v: "write_mesh_node e obj w = (Some ValueError, w)"
    if "parent obj = Some pm" "inverted e pm = None" for pm
    using that by (simp add: write_mesh_node_def assms s)
  show ?thesis
  proof (intro exI[of _ groups] conjI allI impI)
    show "split_meshes_for_vertex_limit by_material = Inr groups" by (rule s)
  next
    fix pm inv
    assume "parent obj = Some pm \<and> inverted e pm = Some inv"
    then show "write_mesh_node e obj w
          = (None, wrote w
               (node_record (name obj) (length groups) (convert_matrix e inv)
                @ concat (map (mesh_record obj ?p) groups))
               (concat (map (mesh_warnings obj) groups)))"
      using a by blast
  next
    assume "parent obj = None \<and> length groups > 1"
    then show "write_mesh_node e obj w
          = (None, wrote w
               (node_record (name obj) (length groups) Matrix_identity
                @ concat (map (mesh_record obj ?p) groups))
               (concat (map (mesh_warnings obj) groups)))"
      using c by blast
  next
    fix g
    assume "parent obj = None \<and> groups = [g]"
    then show "write_mesh_node e obj w
          = (None, wrote w (mesh_record obj ?p g) (mesh_warnings obj g))"
      using d by blast
  next
    fix g p
    show "take 3 (mesh_record obj p g) = [UInt 2, Str (name obj), UInt 0]" by (rule t)
  next
    fix pm
    assume "parent obj = Some pm \<and> inverted e pm = None"
    then show "write_mesh_node e obj w = (Some ValueError, w)" using v by blast
  qed
qed

lemma loop_vertex_mesh_object:
  "loop_vertex env0 (mesh_object nm par cs one_triangle) one_triangle 0 0
     = Inr (built (0, 0, 0) (0, 0))"
  "loop_vertex env0 (mesh_object nm par cs one_triangle) one_triangle 0 (Suc 0)
     = Inr (built (1, 0, 0) (1, 0))"
  "loop_vertex env0 (mesh_object nm par cs one_triangle) one_triangle 0 2
     = Inr (built (0, 1, 0) (0, 1))"
  by (simp_all add: loop_vertex_def env0_def mesh_object_def one_triangle_def
      loop_at_def built_def c0_def c1_def c2_def Let_def)

lemma split_one_triangle:
  "split_object_by_materials env0 (mesh_object nm par cs one_triangle) = Inr [one_triangle_group]"
proof -
  let ?o = "mesh_object nm par cs one_triangle"
  have t: "triangles_loop env0 ?o one_triangle 0 (mesh_triangles one_triangle) [] []
      = Inr ([(built (0, 0, 0) (0, 0), 0), (built (1, 0, 0) (1, 0), 1),
              (built (0, 1, 0) (0, 1), 2)], [1, 2, 0])"
    by (simp add: add_triangle_def loop_vertex_mesh_object
        loop_vertex_mesh_object[unfolded one_triangle_def, simplified]
        insert_vertex_def lookup_vertex_def
        UvVertex_eq_def built_def c0_def c1_def c2_def extend_face_def)
      (simp add: one_triangle_def add_triangle_def
        loop_vertex_mesh_object[unfolded one_triangle_def, simplified]
        insert_vertex_def lookup_vertex_def
        UvVertex_eq_def built_def c0_def c1_def c2_def extend_face_def)
  have m: "materials one_triangle = [Some paint]"
    and u: "set_iter env0 (map material_index (mesh_triangles one_triangle)) = [0]"
    and p: "material_positions env0 (mat_name paint) = Some (Some 7)"
    and n: "\<not> startswith (mat_name paint) ''__''"
    and o: "to_mesh ?o = one_triangle"
    by (simp_all add: one_triangle_def env0_def mesh_object_def paint_def startswith_def)
  have v: "vertex_buffer [(built (0, 0, 0) (0, 0), 0), (built (1, 0, 0) (1, 0), Suc 0),
              (built (0, 1, 0) (0, 1), 2)]
      = [built (0, 0, 0) (0, 0), built (1, 0, 0) (1, 0), built (0, 1, 0) (0, 1)]"
  proof -
    have "sort_key snd [(built (0, 0, 0) (0, 0), 0::nat), (built (1, 0, 0) (1, 0), Suc 0),
              (built (0, 1, 0) (0, 1), 2)]
        = [(built (0, 0, 0) (0, 0), 0), (built (1, 0, 0) (1, 0), Suc 0),
              (built (0, 1, 0) (0, 1), 2)]"
      by (rule sort_key_id_if_sorted) simp
    then show ?thesis by (simp add: vertex_buffer_def)
  qed
  show ?thesis
    by (simp add: split_object_by_materials_def o m u t p n v one_triangle_group_def)
qed

lemma split_one_triangle_group:
  "split_meshes_for_vertex_limit [one_triangle_group] = Inr [one_triangle_group]"
  by (simp add: split_meshes_for_vertex_limit_def one_triangle_group_def)

lemma default_properties:
  "mesh_node_properties env0 (mesh_object nm par cs m) = NodeProperties_default"
  by (simp add: mesh_node_properties_def NodeProperties_init_def env0_def mesh_object_def)

text \<open>
  Witness for C7: the one-triangle mesh \<open>wing\<close> below a parent scaled by 2 is written
  as a node with child count 1 and the scaling by 1/2 as transform, followed by its
  Mesh record; the same mesh without a parent is written as its Mesh record alone.
\<close>

theorem write_mesh_node_witness:
  "split_object_by_materials env0 child_tri = Inr [one_triangle_group] \<and>
   split_object_by_materials env0 tri_obj = Inr [one_triangle_group] \<and>
   write_mesh_node env0 child_tri empty_writer
     = (None, wrote empty_writer
          (node_record ''wing'' 1 (scale_by (1 / 2))
           @ mesh_record child_tri NodeProperties_default one_triangle_group) []) \<and>
   write_mesh_node env0 tri_obj empty_writer
     = (None, wrote empty_writer (mesh_record tri_obj NodeProperties_default one_triangle_group) [])"
proof -
  have s1: "split_object_by_materials env0 child_tri = Inr [one_triangle_group]"
    and s2: "split_object_by_materials env0 tri_obj = Inr [one_triangle_group]"
    by (simp_all add: child_tri_def tri_obj_def split_one_triangle)
  have p1: "parent child_tri = Some (scale_by 2)" "name child_tri = ''wing''"
    and p2: "parent tri_obj = None"
    and i: "inverted env0 (scale_by 2) = Some (scale_by (1 / 2))"
    and c: "convert_matrix env0 (scale_by (1 / 2)) = scale_by (1 / 2)"
    and w: "mesh_warnings child_tri one_triangle_group = []"
      "mesh_warnings tri_obj one_triangle_group = []"
    by (simp_all add: child_tri_def tri_obj_def mesh_object_def env0_def scale_by_def
        Matrix_identity_def mesh_warnings_def one_triangle_group_def)
  have d: "mesh_node_properties env0 child_tri = NodeProperties_default"
      "mesh_node_properties env0 tri_obj = NodeProperties_default"
    by (simp_all add: child_tri_def tri_obj_def default_properties)
  have a: "write_mesh_node env0 child_tri empty_writer
     = (None, wrote empty_writer
          (node_record ''wing'' 1 (scale_by (1 / 2))
           @ mesh_record child_tri NodeProperties_default one_triangle_group) [])"
    using write_mesh_node_records[OF s1, of empty_writer] p1 i c w d
    by (auto simp: split_one_triangle_group)
  have b: "write_mesh_node env0 tri_obj empty_writer
     = (None, wrote empty_writer (mesh_record tri_obj NodeProperties_default one_triangle_group) [])"
    using write_mesh_node_records[OF s2, of empty_writer] p2 w d
    by (auto simp: split_one_triangle_group)
  show ?thesis using s1 s2 a b by simp
qed

text \<open>
  C7 as stated, a wrapping node for every mesh object that has a parent, fails: the
  one-triangle mesh \<open>wing\<close> below a parent scaled to zero is grouped without error,
  but the parent's world matrix has no inverse, the call at line 209 raises
  ValueError, and neither a node nor a Mesh record is written.
\<close>

theorem write_mesh_node_singular_parent:
  "parent sing_child = Some (scale_by 0) \<and>
   inverted env0 (scale_by 0) = None \<and>
   split_object_by_materials env0 sing_child = Inr [one_triangle_group] \<and>
   write_mesh_node env0 sing_child empty_writer = (Some ValueError, empty_writer) \<and>
   out (snd (write_mesh_node env0 sing_child empty_writer)) = []"
proof -
  have p: "parent sing_child = Some (scale_by 0)"
    by (simp add: sing_child_def mesh_object_def)
  have i: "inverted env0 (scale_by 0) = None"
    by (simp add: env0_def scale_by_def Matrix_identity_def)
  have s: "split_object_by_materials env0 sing_child = Inr [one_triangle_group]"
    by (simp add: sing_child_def split_one_triangle)
  have w: "write_mesh_node env0 sing_child empty_writer = (Some ValueError, empty_writer)"
    by (simp add: write_mesh_node_def s split_one_triangle_group p i)
  show ?thesis using p i s w by (simp add: empty_writer_def)
qed

section \<open>Hierarchy: fatal meshes and excluded objects\<close>

lemma write_object_excluded:
  "startswith (name obj) ''__'' \<Longrightarrow> write_object e obj w = (None, w)"
  by (cases obj) simp

lemma write_children_filter:
  "write_children e cs w
     = write_children e (filter (\<lambda>c. \<not> startswith (name c) ''__'') cs) w"
proof (induction cs arbitrary: w)
  case Nil
  then show ?case by simp
next
  case (Cons c cs)
  show ?case
  proof (cases "startswith (name c) ''__''")
    case True
    then show ?thesis using Cons.IH by (simp add: write_object_excluded)
  next
    case False
    then show ?thesis using Cons.IH by (simp split: prod.splits option.splits)
  qed
qed

lemma write_top_filter:
  "write_top e objs w = write_top e (filter (\<lambda>c. \<not> startswith (name c) ''__'') objs) w"
proof (induction objs arbitrary: w)
  case Nil
  then show ?case by simp
next
  case (Cons c cs)
  show ?case
  proof (cases "startswith (name c) ''__''")
    case True
    then show ?thesis using Cons.IH by (simp add: write_object_excluded)
  next
    case False
    then show ?thesis using Cons.IH by (simp split: prod.splits option.splits)
  qed
qed

lemma count_root_children_filter:
  "count_root_children objs
     = count_root_children (filter (\<lambda>c. \<not> startswith (name c) ''__'') objs)"
proof -
  have "filter (\<lambda>obj. parent obj = None \<and> \<not> startswith (name obj) ''__'' \<and> visible_get obj)
          (filter (\<lambda>c. \<not> startswith (name c) ''__'') objs)
      = filter (\<lambda>obj. parent obj = None \<and> \<not> startswith (name obj) ''__'' \<and> visible_get obj) objs"
    by (induction objs) auto
  then show ?thesis by (simp only: count_root_children_def)
qed

lemma NodeWriter_write_filter:
  "NodeWriter_write e objs w
     = NodeWriter_write e (filter (\<lambda>c. \<not> startswith (name c) ''__'') objs) w"
proof -
  let ?P = "\<lambda>c. \<not> startswith (name c) ''__''"
  have "write_top e (sort_key (\<lambda>k. length (children k)) objs) w'
      = write_top e (sort_key (\<lambda>k. length (children k)) (filter ?P objs)) w'" for w'
    using write_top_filter[of e "sort_key (\<lambda>k. length (children k)) objs" w']
    by (simp add: filter_sort)
  then show ?thesis
    using count_root_children_filter[of objs]
    by (simp add: NodeWriter_write_def write_base_node_def)
qed

text \<open>
  C8. An object whose name starts with \<open>__\<close> is left by \<^verbatim>\<open>_write_object\<close> without a
  write and without a visit to its children: stream and warnings are unchanged. So the
  loops over children and over the top-level objects, the two child counts and the
  whole export give the same result as for the object list without that object (and
  thereby without everything below it).
\<close>

theorem excluded_object_writes_nothing:
  assumes "startswith (name obj) ''__''"
  shows "write_object e obj w = (None, w)
    \<and> write_children e (before @ obj # after) w = write_children e (before @ after) w
    \<and> write_top e (before @ obj # after) w = write_top e (before @ after) w
    \<and> count_children (before @ obj # after) = count_children (before @ after)
    \<and> count_root_children (before @ obj # after) = count_root_children (before @ after)
    \<and> NodeWriter_write e (before @ obj # after) w = NodeWriter_write e (before @ after) w"
proof -
  let ?P = "\<lambda>c. \<not> startswith (name c) ''__''"
  have f: "filter ?P (before @ obj # after) = filter ?P (before @ after)"
    using assms by simp
  have 1: "write_object e obj w = (None, w)"
    using write_object_excluded[OF assms] .
  have 2: "write_children e (before @ obj # after) w = write_children e (before @ after) w"
    using write_children_filter[of e "before @ obj # after" w]
      write_children_filter[of e "before @ after" w] f by simp
  have 3: "write_top e (before @ obj # after) w = write_top e (before @ after) w"
    using write_top_filter[of e "before @ obj # after" w]
      write_top_filter[of e "before @ after" w] f by simp
  have 4: "count_children (before @ obj # after) = count_children (before @ after)"
    using assms by (simp add: count_children_def)
  have 5: "count_root_children (before @ obj # after) = count_root_children (before @ after)"
    using assms by (simp add: count_root_children_def)
  have 6: "NodeWriter_write e (before @ obj # after) w = NodeWriter_write e (before @ after) w"
    using NodeWriter_write_filter[of e "before @ obj # after" w]
      NodeWriter_write_filter[of e "before @ after" w] f by simp
  show ?thesis using 1 2 3 4 5 6 by blast
qed

text \<open>
  Witness for C8: the object \<open>__helper\<close> with a mesh below it. Alone in the scene, it
  leaves an export of the root node with child count 0 and nothing else.
\<close>

theorem excluded_object_witness:
  "startswith (name helper_subtree) ''__''
   \<and> write_object env0 helper_subtree empty_writer = (None, empty_writer)
   \<and> NodeWriter_write env0 ([] @ helper_subtree # []) empty_writer
       = (None, \<lparr>out = root_tokens 0, warnings = []\<rparr>)"
proof -
  have h: "startswith (name helper_subtree) ''__''"
    by (simp add: helper_subtree_def empty_object_def startswith_def)
  have "NodeWriter_write env0 ([] @ []) empty_writer = (None, \<lparr>out = root_tokens 0, warnings = []\<rparr>)"
    by (simp add: NodeWriter_write_def write_base_node_def write_base_node_data_def
        count_root_children_def write_matrix_def write_bool_def write_uint_def
        write_string_def write_node_class_def emit_def empty_writer_def root_tokens_def)
  then show ?thesis
    using h excluded_object_writes_nothing[OF h, of env0 empty_writer "[]" "[]"] by simp
qed

lemma write_children_append:
  "write_children e (xs @ ys) w
     = (case write_children e xs w of
          (Some err, w1) \<Rightarrow> (Some err, w1)
        | (None, w1) \<Rightarrow> write_children e ys w1)"
  by (induction xs arbitrary: w) (auto split: prod.splits option.splits)

lemma write_top_append:
  "write_top e (xs @ ys) w
     = (case write_top e xs w of
          (Some err, w1) \<Rightarrow> (Some err, w1)
        | (None, w1) \<Rightarrow> write_top e ys w1)"
  by (induction xs arbitrary: w) (auto split: prod.splits option.splits)

lemma write_object_generic:
  assumes "\<not> startswith (name p) ''__''" and "visible_get p" and "type p \<noteq> ''MESH''"
  shows "write_object e p w
           = write_children e (children p) (write_base_node e [] (Some p) (name p) w)"
  using assms by (cases p) simp

lemma visits_propagates:
  assumes "visits e p w d w'" and "write_object e d w' = (Some err, w'')"
  shows "write_object e p w = (Some err, w'')"
  using assms
proof (induction rule: visits.induct)
  case (visits_here e p w)
  then show ?case by simp
next
  case (visits_below p before c after e w w1 d w')
  have c: "write_object e c w1 = (Some err, w'')"
    using visits_below.IH visits_below.prems by simp
  have "write_children e (children p) (write_base_node e [] (Some p) (name p) w)
      = write_children e (c # after) w1"
    using visits_below.hyps(4,5) by (simp add: write_children_append)
  also have "\<dots> = (Some err, w'')" using c visits_below.hyps(6) by simp
  finally show ?case
    using write_object_generic[OF visits_below.hyps(1,2,3)] by simp
qed

text \<open>
  C6. A visible mesh object that is not excluded and has a child makes
  \<^verbatim>\<open>_write_object\<close> raise, with the object's name in the message and with the stream
  and the warnings as they were before the call. Nothing catches the exception: the
  loop over the siblings and the loop over the top-level objects end with it; every
  call of \<^verbatim>\<open>_write_object\<close> for an ancestor, at any depth, that leads to the call
  for the mesh ends with it; and so does the export, with the stream as it was when
  the mesh was reached.
\<close>

theorem mesh_with_children_is_fatal:
  assumes "\<not> startswith (name obj) ''__''" and "visible_get obj"
    and "type obj = ''MESH''" and "children obj \<noteq> []"
  shows "write_object e obj w
           = (Some (Exception (''A mesh cannot contain children ('' @ quoted (name obj) @ '')'')), w)
    \<and> write_children e (obj # siblings) w
           = (Some (Exception (''A mesh cannot contain children ('' @ quoted (name obj) @ '')'')), w)
    \<and> (parent obj = None \<longrightarrow>
         write_top e (obj # later) w
           = (Some (Exception (''A mesh cannot contain children ('' @ quoted (name obj) @ '')'')), w))
    \<and> (\<forall>p w0. visits e p w0 obj w \<longrightarrow>
         write_object e p w0
           = (Some (Exception (''A mesh cannot contain children ('' @ quoted (name obj) @ '')'')), w))
    \<and> (\<forall>objects p w0 wr before after.
         sort_key (\<lambda>k. length (children k)) objects = before @ p # after
         \<and> write_top e before (write_base_node e objects None ''BlenderFile'' w0) = (None, wr)
         \<and> parent p = None \<and> visible_get p \<and> visits e p wr obj w \<longrightarrow>
         NodeWriter_write e objects w0
           = (Some (Exception (''A mesh cannot contain children ('' @ quoted (name obj) @ '')'')), w))"
proof -
  let ?x = "Exception (''A mesh cannot contain children ('' @ quoted (name obj) @ '')'')"
  have 1: "write_object e obj w' = (Some ?x, w')" for w'
    using assms by (cases obj) simp
  have 2: "write_children e (obj # siblings) w = (Some ?x, w)"
    using 1 assms(2) by simp
  have 3: "parent obj = None \<longrightarrow> write_top e (obj # later) w = (Some ?x, w)"
    using 1 assms(2) by simp
  have 4: "write_object e p w0 = (Some ?x, w)" if "visits e p w0 obj w" for p w0
    using visits_propagates[OF that 1] .
  have 5: "NodeWriter_write e objects w0 = (Some ?x, w)"
    if "sort_key (\<lambda>k. length (children k)) objects = before @ p # after
         \<and> write_top e before (write_base_node e objects None ''BlenderFile'' w0) = (None, wr)
         \<and> parent p = None \<and> visible_get p \<and> visits e p wr obj w"
    for objects p w0 wr before after
  proof -
    have "write_top e (before @ p # after) (write_base_node e objects None ''BlenderFile'' w0)
        = write_top e (p # after) wr"
      using that by (simp add: write_top_append)
    also have "\<dots> = (Some ?x, w)" using that 4[of p wr] by simp
    finally show ?thesis using that by (simp add: NodeWriter_write_def)
  qed
  show ?thesis using 1 2 3 4 5 by blast
qed

lemma tree_facts:
  "name wheel = ''wheel''" "\<not> startswith (name wheel) ''__''" "visible_get wheel"
  "type wheel = ''MESH''" "children wheel \<noteq> []"
  "\<not> startswith (name axle) ''__''" "visible_get axle" "type axle \<noteq> ''MESH''"
  "children axle = [] @ wheel # []" "name axle = ''axle''"
  "\<not> startswith (name car) ''__''" "visible_get car" "type car \<noteq> ''MESH''"
  "children car = [seat] @ axle # []" "name car = ''car''" "parent car = None"
  "visible_get seat"
  by (simp_all add: wheel_def axle_def car_def seat_def mesh_object_def empty_object_def
      startswith_def)

lemma tree_writes:
  "write_base_node env0 [car] None ''BlenderFile'' empty_writer
     = \<lparr>out = root_tokens 1, warnings = []\<rparr>"
  "write_base_node env0 [] (Some car) ''car'' \<lparr>out = root_tokens 1, warnings = []\<rparr>
     = \<lparr>out = root_tokens 1 @ node_record ''car'' 2 Matrix_identity, warnings = []\<rparr>"
  "write_children env0 [seat]
       \<lparr>out = root_tokens 1 @ node_record ''car'' 2 Matrix_identity, warnings = []\<rparr>
     = (None, \<lparr>out = root_tokens 1 @ node_record ''car'' 2 Matrix_identity
                     @ node_record ''seat'' 0 Matrix_identity,
               warnings = [unknown_object_warning env0 ''seat'']\<rparr>)"
  "write_base_node env0 [] (Some axle) ''axle''
       \<lparr>out = root_tokens 1 @ node_record ''car'' 2 Matrix_identity
                     @ node_record ''seat'' 0 Matrix_identity,
        warnings = [unknown_object_warning env0 ''seat'']\<rparr>
     = before_wheel"
  by (simp_all add: write_base_node_def write_base_node_data_def count_root_children_def
      count_children_def write_matrix_def write_bool_def write_uint_def write_string_def
      write_node_class_def emit_def warn_def empty_writer_def root_tokens_def node_record_def
      before_wheel_def car_def seat_def axle_def wheel_def nut_def mesh_object_def
      empty_object_def startswith_def env0_def)

text \<open>
  Witness for C6: the mesh \<open>wheel\<close> has the child \<open>nut\<close> and lies two levels below the
  top-level object \<open>car\<close>. The export ends in the exception that names \<open>wheel\<close>; the
  stream holds the root node and the nodes of \<open>car\<close>, \<open>seat\<close> and \<open>axle\<close>, and no
  token of \<open>wheel\<close> or \<open>nut\<close>.
\<close>

theorem mesh_with_children_witness:
  "\<not> startswith (name wheel) ''__'' \<and> visible_get wheel
   \<and> type wheel = ''MESH'' \<and> children wheel \<noteq> []
   \<and> visits env0 car \<lparr>out = root_tokens 1, warnings = []\<rparr> wheel before_wheel
   \<and> write_object env0 wheel before_wheel = (Some wheel_error, before_wheel)
   \<and> write_object env0 car \<lparr>out = root_tokens 1, warnings = []\<rparr>
       = (Some wheel_error, before_wheel)
   \<and> NodeWriter_write env0 [car] empty_writer = (Some wheel_error, before_wheel)"
proof -
  let ?w_root = "\<lparr>out = root_tokens 1, warnings = []\<rparr>"
  let ?w_car = "\<lparr>out = root_tokens 1 @ node_record ''car'' 2 Matrix_identity, warnings = []\<rparr>"
  let ?w_seat = "\<lparr>out = root_tokens 1 @ node_record ''car'' 2 Matrix_identity
                     @ node_record ''seat'' 0 Matrix_identity,
               warnings = [unknown_object_warning env0 ''seat'']\<rparr>"
  have v1: "visits env0 axle ?w_seat wheel before_wheel"
  proof (rule visits_below[OF tree_facts(6,7,8,9)])
    show "write_children env0 [] (write_base_node env0 [] (Some axle) (name axle) ?w_seat)
        = (None, before_wheel)"
      unfolding tree_facts(10) tree_writes(4) by simp
    show "visible_get wheel" by (rule tree_facts(3))
    show "visits env0 wheel before_wheel wheel before_wheel" by (rule visits_here)
  qed
  have v2: "visits env0 car ?w_root wheel before_wheel"
  proof (rule visits_below[OF tree_facts(11,12,13,14)])
    show "write_children env0 [seat] (write_base_node env0 [] (Some car) (name car) ?w_root)
        = (None, ?w_seat)"
      by (simp only: tree_facts(15) tree_writes(2,3))
    show "visible_get axle" by (rule tree_facts(7))
    show "visits env0 axle ?w_seat wheel before_wheel" by (rule v1)
  qed
  note f = mesh_with_children_is_fatal[OF tree_facts(2,3,4,5), of env0 before_wheel]
  have e: "Exception (''A mesh cannot contain children ('' @ quoted (name wheel) @ '')'')
      = wheel_error"
    by (simp add: tree_facts(1) wheel_error_def)
  have a: "write_object env0 wheel before_wheel = (Some wheel_error, before_wheel)"
    using f e by simp
  have b: "write_object env0 car ?w_root = (Some wheel_error, before_wheel)"
    using f v2 e by simp
  have s: "sort_key (\<lambda>k. length (children k)) [car] = [] @ car # []" by simp
  have t: "write_top env0 [] (write_base_node env0 [car] None ''BlenderFile'' empty_writer)
      = (None, ?w_root)"
    by (simp add: tree_writes(1))
  have c: "NodeWriter_write env0 [car] empty_writer = (Some wheel_error, before_wheel)"
    using f s t tree_facts(12,16) v2 e by metis
  show ?thesis
    using tree_facts(2,3,4,5) v2 a b c by simp
qed

end
